theory Spec2Isabelle
  imports Main "HOL-Library.Multiset"
begin

unbundle bit_operations_syntax

section \<open>JavaScript strings\<close>

text \<open>
  A JavaScript string is a sequence of UTF-16 code units. A code unit is modelled by its
  numeric value, so that the characters the parser folds (U+FEFF, U+200B, the box-drawing
  bars, the dashes) can be written down. \<open>js\<close> turns an ASCII literal into code units.
\<close>

type_synonym jsstring = "nat list"

definition js :: "string \<Rightarrow> jsstring" where
  "js s = map of_char s"

text \<open>White space as \<open>String.prototype.trim\<close> and the regular expression class \<open>\s\<close>
  understand it: the WhiteSpace and LineTerminator productions of ECMAScript.\<close>

definition isLineTerminator :: "nat \<Rightarrow> bool" where
  "isLineTerminator c = (c = 10 \<or> c = 13 \<or> c = 8232 \<or> c = 8233)"

definition isWhiteSpace :: "nat \<Rightarrow> bool" where
  "isWhiteSpace c =
     (c = 9 \<or> c = 11 \<or> c = 12 \<or> c = 32 \<or> c = 160 \<or> c = 5760 \<or> (8192 \<le> c \<and> c \<le> 8202)
      \<or> c = 8239 \<or> c = 8287 \<or> c = 12288 \<or> c = 65279 \<or> isLineTerminator c)"

definition trimStart :: "jsstring \<Rightarrow> jsstring" where
  "trimStart s = dropWhile isWhiteSpace s"

definition trimEnd :: "jsstring \<Rightarrow> jsstring" where
  "trimEnd s = rev (dropWhile isWhiteSpace (rev s))"

definition trim :: "jsstring \<Rightarrow> jsstring" where
  "trim s = trimStart (trimEnd s)"

definition isUpperAscii :: "nat \<Rightarrow> bool" where
  "isUpperAscii c = (65 \<le> c \<and> c \<le> 90)"

definition isLowerAscii :: "nat \<Rightarrow> bool" where
  "isLowerAscii c = (97 \<le> c \<and> c \<le> 122)"

definition isDigit :: "nat \<Rightarrow> bool" where
  "isDigit c = (48 \<le> c \<and> c \<le> 57)"

definition lowerAscii :: "nat \<Rightarrow> nat" where
  "lowerAscii c = (if isUpperAscii c then c + 32 else c)"

text \<open>
  What the Unicode tables of the JavaScript engine decide is not written in the repository.
  It is taken as a parameter, used only outside ASCII: \<open>lowerUnicode\<close> is
  \<open>toLowerCase\<close> on a string that holds a code unit of 128 or more, and
  \<open>letterOrNumber\<close> says whether a code point of 128 or more is in the classes
  \<open>\p{L}\<close> or \<open>\p{N}\<close>.
\<close>

record unicode =
  lowerUnicode :: "jsstring \<Rightarrow> jsstring"
  letterOrNumber :: "nat \<Rightarrow> bool"

definition toLowerCase :: "unicode \<Rightarrow> jsstring \<Rightarrow> jsstring" where
  "toLowerCase U s = (if list_all (\<lambda>c. c < 128) s then map lowerAscii s else lowerUnicode U s)"

text \<open>\<open>BigInt.prototype.toString()\<close> and the template literal of a non-negative
  integer: the decimal digits.\<close>

function decimal :: "nat \<Rightarrow> jsstring" where
  "decimal n = (if n < 10 then [48 + n] else decimal (n div 10) @ [48 + n mod 10])"
  by pat_completeness auto
termination
  by (relation "measure (\<lambda>n. n)") auto

declare decimal.simps [simp del]

section \<open>Permission names (textParser.js, permissionsToBitfield)\<close>

text \<open>The flag names that the switch of \<open>permissionsToBitfield\<close> pushes.\<close>

datatype perm_flag =
    Administrator | ManageRoles | ManageChannels | ManageWebhooks | ManageEmojisAndStickers
  | BanMembers | KickMembers | ViewAuditLog | ManageMessages | ManageThreads | MentionEveryone
  | ModerateMembers | PrioritySpeaker | SendMessages | ReadMessageHistory | ViewChannel
  | Connect | Speak | Stream | UseVAD | EmbedLinks | AttachFiles | UseExternalEmojis
  | UseExternalStickers | UseApplicationCommands | AddReactions | ManageEvents
  | ChangeNickname | MoveMembers

text \<open>
  \<open>PermissionsBitField.Flags\<close> belongs to discord.js, not to the repository: the bit value
  of each flag is a parameter of the model.
\<close>

type_synonym flags = "perm_flag \<Rightarrow> nat"

text \<open>\<open>p.replace(/\(.*?\)/g, '')\<close>: every parenthesis group is removed, scanning from
  the left. The lazy \<open>.*?\<close> stops at the first closing parenthesis and does not cross a
  line terminator. \<open>parenEnd\<close> is given the text after an opening parenthesis and returns
  what follows the match, if there is one.\<close>

fun parenEnd :: "jsstring \<Rightarrow> jsstring option" where
  "parenEnd [] = None"
| "parenEnd (c # cs) =
     (if c = 41 then Some cs else if isLineTerminator c then None else parenEnd cs)"

lemma parenEnd_length: "parenEnd cs = Some r \<Longrightarrow> length r < length cs"
  by (induction cs) (auto split: if_splits)

function stripParens :: "jsstring \<Rightarrow> jsstring" where
  "stripParens [] = []"
| "stripParens (c # cs) =
     (if c = 40 then
        (case parenEnd cs of
           Some r \<Rightarrow> stripParens r
         | None \<Rightarrow> c # stripParens cs)
      else c # stripParens cs)"
  by pat_completeness auto
termination
  by (relation "measure length") (auto dest: parenEnd_length)

definition normPerm :: "unicode \<Rightarrow> jsstring \<Rightarrow> jsstring" where
  "normPerm U p = toLowerCase U (trim (stripParens p))"

text \<open>The switch, case by case in the order of the source; \<open>None\<close> is the default
  branch, which pushes nothing.\<close>

definition permFlag :: "jsstring \<Rightarrow> perm_flag option" where
  "permFlag norm =
    (if norm = js ''administrator'' \<or> norm = js ''manage server'' then Some Administrator
     else if norm = js ''manage roles'' then Some ManageRoles
     else if norm = js ''manage channels'' then Some ManageChannels
     else if norm = js ''manage webhooks'' then Some ManageWebhooks
     else if norm = js ''manage emojis'' \<or> norm = js ''manage emojis and stickers''
       then Some ManageEmojisAndStickers
     else if norm = js ''ban members'' then Some BanMembers
     else if norm = js ''kick members'' then Some KickMembers
     else if norm = js ''view audit log'' then Some ViewAuditLog
     else if norm = js ''manage messages'' then Some ManageMessages
     else if norm = js ''manage threads'' then Some ManageThreads
     else if norm = js ''mention everyone'' then Some MentionEveryone
     else if norm = js ''timeout members'' \<or> norm = js ''moderate members''
          \<or> norm = js ''mute members'' then Some ModerateMembers
     else if norm = js ''priority speaker'' then Some PrioritySpeaker
     else if norm = js ''send messages'' then Some SendMessages
     else if norm = js ''read message history'' then Some ReadMessageHistory
     else if norm = js ''view channel'' \<or> norm = js ''read channels'' then Some ViewChannel
     else if norm = js ''connect'' then Some Connect
     else if norm = js ''speak'' then Some Speak
     else if norm = js ''stream'' then Some Stream
     else if norm = js ''use voice activity'' then Some UseVAD
     else if norm = js ''embed links'' then Some EmbedLinks
     else if norm = js ''attach files'' then Some AttachFiles
     else if norm = js ''use external emojis'' then Some UseExternalEmojis
     else if norm = js ''use external stickers'' then Some UseExternalStickers
     else if norm = js ''use application commands'' then Some UseApplicationCommands
     else if norm = js ''add reactions'' then Some AddReactions
     else if norm = js ''manage events'' then Some ManageEvents
     else if norm = js ''change nickname'' then Some ChangeNickname
     else if norm = js ''move members'' then Some MoveMembers
     else None)"

text \<open>The loop over \<open>perms\<close> that fills the array \<open>mapped\<close>.\<close>

fun mappedFlags :: "unicode \<Rightarrow> jsstring list \<Rightarrow> perm_flag list" where
  "mappedFlags U [] = []"
| "mappedFlags U (p # ps) =
     (case permFlag (normPerm U p) of
        Some f \<Rightarrow> f # mappedFlags U ps
      | None \<Rightarrow> mappedFlags U ps)"

text \<open>\<open>new PermissionsBitField(mapped)\<close> on an array of flag names: discord.js resolves each
  name through \<open>Flags\<close> and reduces with \<open>|\<close> from the default bit \<open>0n\<close>.\<close>

definition resolveFlags :: "flags \<Rightarrow> perm_flag list \<Rightarrow> nat" where
  "resolveFlags F fs = foldl (\<lambda>prev b. prev OR b) 0 (map F fs)"

definition permissionsToBitfield :: "unicode \<Rightarrow> flags \<Rightarrow> jsstring list \<Rightarrow> nat" where
  "permissionsToBitfield U F perms = resolveFlags F (mappedFlags U perms)"

text \<open>The case labels of the switch, listed by the flag that they push.\<close>

fun synonyms :: "perm_flag \<Rightarrow> jsstring list" where
  "synonyms Administrator = [js ''administrator'', js ''manage server'']"
| "synonyms ManageRoles = [js ''manage roles'']"
| "synonyms ManageChannels = [js ''manage channels'']"
| "synonyms ManageWebhooks = [js ''manage webhooks'']"
| "synonyms ManageEmojisAndStickers = [js ''manage emojis'', js ''manage emojis and stickers'']"
| "synonyms BanMembers = [js ''ban members'']"
| "synonyms KickMembers = [js ''kick members'']"
| "synonyms ViewAuditLog = [js ''view audit log'']"
| "synonyms ManageMessages = [js ''manage messages'']"
| "synonyms ManageThreads = [js ''manage threads'']"
| "synonyms MentionEveryone = [js ''mention everyone'']"
| "synonyms ModerateMembers = [js ''timeout members'', js ''moderate members'', js ''mute members'']"
| "synonyms PrioritySpeaker = [js ''priority speaker'']"
| "synonyms SendMessages = [js ''send messages'']"
| "synonyms ReadMessageHistory = [js ''read message history'']"
| "synonyms ViewChannel = [js ''view channel'', js ''read channels'']"
| "synonyms Connect = [js ''connect'']"
| "synonyms Speak = [js ''speak'']"
| "synonyms Stream = [js ''stream'']"
| "synonyms UseVAD = [js ''use voice activity'']"
| "synonyms EmbedLinks = [js ''embed links'']"
| "synonyms AttachFiles = [js ''attach files'']"
| "synonyms UseExternalEmojis = [js ''use external emojis'']"
| "synonyms UseExternalStickers = [js ''use external stickers'']"
| "synonyms UseApplicationCommands = [js ''use application commands'']"
| "synonyms AddReactions = [js ''add reactions'']"
| "synonyms ManageEvents = [js ''manage events'']"
| "synonyms ChangeNickname = [js ''change nickname'']"
| "synonyms MoveMembers = [js ''move members'']"

section \<open>The template\<close>

record overwrite =
  roleRefId :: jsstring
  allow :: "jsstring option"
  deny :: "jsstring option"

text \<open>The \<open>type\<close> of a channel is read by \<open>isVoiceType\<close> as a number or as anything
  else through \<open>String(type)\<close>; a template holds a number or a string there.\<close>

datatype chan_type = TypeNum nat | TypeStr jsstring

text \<open>Fields that a producer may leave out (\<open>undefined\<close>) are options.\<close>

record channel =
  ch_name :: "jsstring option"
  ch_type :: chan_type
  ch_topic :: "jsstring option"
  ch_nsfw :: bool
  ch_slowmode :: nat
  ch_overwrites :: "overwrite list option"

record category =
  cat_name :: "jsstring option"
  cat_channels :: "channel list option"

record role =
  refId :: jsstring
  role_name :: jsstring
  role_color :: nat
  role_hoist :: bool
  role_mentionable :: bool
  role_permissions :: "jsstring option"
  isEveryone :: bool

text \<open>\<open>categories\<close> and \<open>roles\<close> are \<open>None\<close> when the field is missing or is not
  an array.\<close>

record template =
  categories :: "category list option"
  roles :: "role list option"
  summary :: jsstring

section \<open>The validator (index.js, ensureTemplateSafe)\<close>

definition MAX_CHANNELS :: nat where
  "MAX_CHANNELS = 500"

definition MAX_ROLES :: nat where
  "MAX_ROLES = 200"

text \<open>The three \<open>throw new Error(...)\<close> of the function, told apart by their message.\<close>

datatype validation_error =
    TemplateNotValid
  | TooManyChannels nat
  | TooManyRoles nat

definition errorMessage :: "validation_error \<Rightarrow> jsstring" where
  "errorMessage e =
     (case e of
        TemplateNotValid \<Rightarrow> js ''Template is not valid.''
      | TooManyChannels n \<Rightarrow>
          js ''Too many channels ('' @ decimal n @ js ''). Discord limit is around 500.''
      | TooManyRoles n \<Rightarrow> js ''Too many roles ('' @ decimal n @ js '').'')"

text \<open>The spec's two error kinds.\<close>

fun isTemplateInvalid :: "validation_error \<Rightarrow> bool" where
  "isTemplateInvalid TemplateNotValid = True"
| "isTemplateInvalid _ = False"

fun isLimitExceeded :: "validation_error \<Rightarrow> bool" where
  "isLimitExceeded (TooManyChannels _) = True"
| "isLimitExceeded (TooManyRoles _) = True"
| "isLimitExceeded _ = False"

text \<open>The loop \<open>for (const cat of template.categories) channelCount += ...\<close>.\<close>

fun countChannels :: "nat \<Rightarrow> category list \<Rightarrow> nat" where
  "countChannels channelCount [] = channelCount"
| "countChannels channelCount (cat # cats) =
     countChannels
       (channelCount + (case cat_channels cat of Some chs \<Rightarrow> length chs | None \<Rightarrow> 0)) cats"

text \<open>The argument is \<open>None\<close> for a template that is \<open>null\<close> or \<open>undefined\<close>.\<close>

definition ensureTemplateSafe :: "template option \<Rightarrow> validation_error + unit" where
  "ensureTemplateSafe template =
     (case template of
        None \<Rightarrow> Inl TemplateNotValid
      | Some t \<Rightarrow>
          (case categories t of
             None \<Rightarrow> Inl TemplateNotValid
           | Some cats \<Rightarrow>
               (let channelCount = countChannels 0 cats;
                    roleCount = (case roles t of Some rs \<Rightarrow> length rs | None \<Rightarrow> 0)
                in if channelCount > MAX_CHANNELS then Inl (TooManyChannels channelCount)
                   else if roleCount > MAX_ROLES then Inl (TooManyRoles roleCount)
                   else Inr ())))"

text \<open>The quantities the claims speak of.\<close>

definition categoriesOf :: "template option \<Rightarrow> category list option" where
  "categoriesOf template = (case template of None \<Rightarrow> None | Some t \<Rightarrow> categories t)"

definition totalChannels :: "category list \<Rightarrow> nat" where
  "totalChannels cats =
     sum_list (map (\<lambda>cat. case cat_channels cat of Some chs \<Rightarrow> length chs | None \<Rightarrow> 0) cats)"

definition roleCountOf :: "template \<Rightarrow> nat" where
  "roleCountOf t = (case roles t of Some rs \<Rightarrow> length rs | None \<Rightarrow> 0)"

section \<open>The provisioning engine (serverBuilder.js)\<close>

subsection \<open>The live service\<close>

text \<open>
  The engine talks to the live service through three calls: \<open>guild.roles.create\<close>,
  \<open>guild.channels.create\<close> and \<open>channel.permissionOverwrites.create\<close>. What the service
  answers is not in the repository, so the service is a parameter: a state of any type and,
  for each call, the answer (a rejection or the identifier of what was created) with the next
  state. \<open>everyoneId\<close> is \<open>guild.roles.everyone.id\<close>, the identifier of the base role of the
  target.
\<close>

type_synonym snowflake = jsstring

text \<open>\<open>ChannelType\<close> of discord.js, as \<open>fromGuild\<close> in index.js reads it (2 and 4).\<close>

definition GuildText :: nat where "GuildText = 0"
definition GuildVoice :: nat where "GuildVoice = 2"
definition GuildCategory :: nat where "GuildCategory = 4"

record role_payload =
  rp_name :: jsstring
  rp_color :: nat
  rp_hoist :: bool
  rp_mentionable :: bool
  rp_permissions :: int

text \<open>A field that the engine does not set, or sets to \<open>undefined\<close>, is \<open>None\<close>.\<close>

record channel_payload =
  p_name :: jsstring
  p_type :: nat
  p_parent :: "snowflake option"
  p_topic :: "jsstring option"
  p_nsfw :: "bool option"
  p_rateLimitPerUser :: "nat option"

text \<open>What \<open>createChannelSafe\<close> reads of a rejection: \<open>err.code\<close> and whether
  \<open>err.rawError.errors.topic\<close> is there.\<close>

record api_error =
  err_code :: "nat option"
  err_topic :: bool
  err_message :: jsstring

record 's platform =
  everyoneId :: snowflake
  rolesCreate :: "role_payload \<Rightarrow> 's \<Rightarrow> (api_error + snowflake) \<times> 's"
  channelsCreate :: "channel_payload \<Rightarrow> 's \<Rightarrow> (api_error + snowflake) \<times> 's"
  overwritesCreate :: "snowflake \<Rightarrow> snowflake \<Rightarrow> int \<Rightarrow> int \<Rightarrow> 's \<Rightarrow> (api_error + unit) \<times> 's"

text \<open>The calls that were issued, oldest first, are kept beside the state of the service.\<close>

datatype call =
    RolesCreate role_payload
  | ChannelsCreate channel_payload
  | OverwritesCreate snowflake snowflake int int

type_synonym 's world = "'s \<times> call list"

text \<open>What the engine can throw: a rejection of the service, the \<open>TypeError\<close> of iterating
  \<open>template.categories\<close> when it is \<open>undefined\<close>, and what \<open>BigInt\<close> and
  \<open>PermissionsBitField\<close> throw on a permission value they cannot read.\<close>

datatype build_error = Rejected api_error | TypeError | BitFieldInvalid

definition guild_roles_create ::
  "'s platform \<Rightarrow> role_payload \<Rightarrow> 's world \<Rightarrow> (build_error + snowflake) \<times> 's world" where
  "guild_roles_create P payload w =
     (case rolesCreate P payload (fst w) of
        (Inl err, s') \<Rightarrow> (Inl (Rejected err), (s', snd w @ [RolesCreate payload]))
      | (Inr rid, s') \<Rightarrow> (Inr rid, (s', snd w @ [RolesCreate payload])))"

definition guild_channels_create ::
  "'s platform \<Rightarrow> channel_payload \<Rightarrow> 's world \<Rightarrow> (api_error + snowflake) \<times> 's world" where
  "guild_channels_create P payload w =
     (case channelsCreate P payload (fst w) of
        (r, s') \<Rightarrow> (r, (s', snd w @ [ChannelsCreate payload])))"

definition permissionOverwrites_create ::
  "'s platform \<Rightarrow> snowflake \<Rightarrow> snowflake \<Rightarrow> int \<Rightarrow> int \<Rightarrow> 's world
     \<Rightarrow> (build_error + unit) \<times> 's world" where
  "permissionOverwrites_create P channelId roleId a d w =
     (case overwritesCreate P channelId roleId a d (fst w) of
        (Inl err, s') \<Rightarrow> (Inl (Rejected err), (s', snd w @ [OverwritesCreate channelId roleId a d]))
      | (Inr u, s') \<Rightarrow> (Inr u, (s', snd w @ [OverwritesCreate channelId roleId a d])))"

subsection \<open>Helpers of the engine\<close>

text \<open>\<open>x || d\<close> on a string that may be missing: the default for \<open>undefined\<close> and for
  the empty string.\<close>

definition orDefault :: "jsstring option \<Rightarrow> jsstring \<Rightarrow> jsstring" where
  "orDefault x d = (case x of None \<Rightarrow> d | Some s \<Rightarrow> if s = [] then d else s)"

definition sanitizeName :: "jsstring option \<Rightarrow> jsstring" where
  "sanitizeName name =
     (let trimmed = trim (orDefault name [])
      in if trimmed = [] then js ''channel'' else take 90 trimmed)"

definition isVoiceType :: "unicode \<Rightarrow> chan_type \<Rightarrow> bool" where
  "isVoiceType U ty =
     (case ty of
        TypeNum n \<Rightarrow> n = GuildVoice
      | TypeStr s \<Rightarrow> toLowerCase U s = js ''voice'')"

text \<open>The value of a string of decimal digits, as \<open>BigInt\<close> reads it (the empty string
  is \<open>0n\<close>).\<close>

definition digitsValue :: "jsstring \<Rightarrow> nat" where
  "digitsValue s = foldl (\<lambda>acc c. 10 * acc + (c - 48)) 0 s"

text \<open>
  \<open>normalizePermValue\<close> on what a template holds: \<open>undefined\<close> or a string. A string of
  decimal digits goes through \<open>BigInt\<close> into the bit field. For any other string the
  outcome is decided by \<open>BigInt\<close> and by \<open>PermissionsBitField\<close> (a bit field, or an
  error that is thrown): that part of the libraries is the parameter \<open>L\<close>.
\<close>

type_synonym permlib = "jsstring \<Rightarrow> build_error + int"

definition normalizePermValue :: "permlib \<Rightarrow> jsstring option \<Rightarrow> build_error + int" where
  "normalizePermValue L val =
     (case val of
        None \<Rightarrow> Inr 0
      | Some s \<Rightarrow> if list_all isDigit s then Inr (int (digitsValue s)) else L s)"

subsection \<open>ensureRoles\<close>

definition rolePayload :: "role \<Rightarrow> int \<Rightarrow> role_payload" where
  "rolePayload tpl perms =
     \<lparr>rp_name = role_name tpl, rp_color = role_color tpl, rp_hoist = role_hoist tpl,
      rp_mentionable = role_mentionable tpl, rp_permissions = perms\<rparr>"

text \<open>The loop of \<open>ensureRoles\<close>; \<open>m\<close> is the \<open>Map\<close> under construction.\<close>

fun ensureRolesLoop ::
  "'s platform \<Rightarrow> permlib \<Rightarrow> role list \<Rightarrow> (jsstring \<rightharpoonup> snowflake) \<Rightarrow> 's world
     \<Rightarrow> (build_error + (jsstring \<rightharpoonup> snowflake)) \<times> 's world" where
  "ensureRolesLoop P L [] m w = (Inr m, w)"
| "ensureRolesLoop P L (tpl # rest) m w =
     (if isEveryone tpl \<or> refId tpl = everyoneId P
      then ensureRolesLoop P L rest (m(refId tpl \<mapsto> everyoneId P)) w
      else
        (case normalizePermValue L (role_permissions tpl) of
           Inl e \<Rightarrow> (Inl e, w)
         | Inr perms \<Rightarrow>
             (case guild_roles_create P (rolePayload tpl perms) w of
                (Inl e, w') \<Rightarrow> (Inl e, w')
              | (Inr rid, w') \<Rightarrow> ensureRolesLoop P L rest (m(refId tpl \<mapsto> rid)) w')))"

definition ensureRoles ::
  "'s platform \<Rightarrow> permlib \<Rightarrow> role list \<Rightarrow> 's world
     \<Rightarrow> (build_error + (jsstring \<rightharpoonup> snowflake)) \<times> 's world" where
  "ensureRoles P L roleTemplates w =
     ensureRolesLoop P L roleTemplates (Map.empty(js ''everyone'' \<mapsto> everyoneId P)) w"

subsection \<open>createChannelSafe\<close>

text \<open>\<open>payload.topic\<close> is truthy: it is there and it is not the empty string.\<close>

definition hasTopic :: "channel_payload \<Rightarrow> bool" where
  "hasTopic payload = (case p_topic payload of None \<Rightarrow> False | Some t \<Rightarrow> t \<noteq> [])"

definition topicInvalid :: "api_error \<Rightarrow> bool" where
  "topicInvalid err = (err_topic err \<or> err_code err = Some 50035)"

definition createChannelSafe ::
  "'s platform \<Rightarrow> channel_payload \<Rightarrow> 's world \<Rightarrow> (build_error + snowflake) \<times> 's world" where
  "createChannelSafe P payload w =
     (case guild_channels_create P payload w of
        (Inr cid, w') \<Rightarrow> (Inr cid, w')
      | (Inl err, w') \<Rightarrow>
          if topicInvalid err \<and> hasTopic payload
          then (case guild_channels_create P (payload\<lparr>p_topic := None\<rparr>) w' of
                  (Inr cid, w'') \<Rightarrow> (Inr cid, w'')
                | (Inl err', w'') \<Rightarrow> (Inl (Rejected err'), w''))
          else (Inl (Rejected err), w'))"

subsection \<open>buildServerFromTemplate\<close>

text \<open>The loop over \<open>ch.overwrites\<close>.\<close>

fun applyOverwrites ::
  "'s platform \<Rightarrow> permlib \<Rightarrow> (jsstring \<rightharpoonup> snowflake) \<Rightarrow> snowflake \<Rightarrow> overwrite list \<Rightarrow> 's world
     \<Rightarrow> (build_error + unit) \<times> 's world" where
  "applyOverwrites P L roleIdMap channelId [] w = (Inr (), w)"
| "applyOverwrites P L roleIdMap channelId (ow # ows) w =
     (case roleIdMap (roleRefId ow) of
        None \<Rightarrow> applyOverwrites P L roleIdMap channelId ows w
      | Some mappedRoleId \<Rightarrow>
          if mappedRoleId = [] then applyOverwrites P L roleIdMap channelId ows w
          else
            (case normalizePermValue L (allow ow) of
               Inl e \<Rightarrow> (Inl e, w)
             | Inr a \<Rightarrow>
                 (case normalizePermValue L (deny ow) of
                    Inl e \<Rightarrow> (Inl e, w)
                  | Inr d \<Rightarrow>
                      (case permissionOverwrites_create P channelId mappedRoleId a d w of
                         (Inl e, w') \<Rightarrow> (Inl e, w')
                       | (Inr u, w') \<Rightarrow> applyOverwrites P L roleIdMap channelId ows w'))))"

text \<open>The payload that the body of the channel loop builds.\<close>

definition channelPayload :: "unicode \<Rightarrow> snowflake \<Rightarrow> channel \<Rightarrow> channel_payload" where
  "channelPayload U parent ch =
     (let name = sanitizeName (Some (orDefault (ch_name ch) (js ''channel'')));
          isVoice = isVoiceType U (ch_type ch)
      in if isVoice
         then \<lparr>p_name = name, p_type = GuildVoice, p_parent = Some parent, p_topic = None,
               p_nsfw = None, p_rateLimitPerUser = None\<rparr>
         else \<lparr>p_name = name, p_type = GuildText, p_parent = Some parent,
               p_topic = (case ch_topic ch of
                            None \<Rightarrow> None
                          | Some t \<Rightarrow> if t = [] then None else Some (take 1024 t)),
               p_nsfw = Some (ch_nsfw ch), p_rateLimitPerUser = Some (ch_slowmode ch)\<rparr>)"

text \<open>The body of the channel loop: one channel and its overwrites.\<close>

definition buildChannel ::
  "'s platform \<Rightarrow> permlib \<Rightarrow> unicode \<Rightarrow> (jsstring \<rightharpoonup> snowflake) \<Rightarrow> snowflake \<Rightarrow> channel \<Rightarrow> 's world
     \<Rightarrow> (build_error + unit) \<times> 's world" where
  "buildChannel P L U roleIdMap parent ch w =
     (case createChannelSafe P (channelPayload U parent ch) w of
        (Inl e, w') \<Rightarrow> (Inl e, w')
      | (Inr channelId, w') \<Rightarrow>
          (case ch_overwrites ch of
             None \<Rightarrow> (Inr (), w')
           | Some ows \<Rightarrow> applyOverwrites P L roleIdMap channelId ows w'))"

fun buildChannels ::
  "'s platform \<Rightarrow> permlib \<Rightarrow> unicode \<Rightarrow> (jsstring \<rightharpoonup> snowflake) \<Rightarrow> snowflake \<Rightarrow> channel list
     \<Rightarrow> 's world \<Rightarrow> (build_error + unit) \<times> 's world" where
  "buildChannels P L U roleIdMap parent [] w = (Inr (), w)"
| "buildChannels P L U roleIdMap parent (ch # chs) w =
     (case buildChannel P L U roleIdMap parent ch w of
        (Inl e, w') \<Rightarrow> (Inl e, w')
      | (Inr u, w') \<Rightarrow> buildChannels P L U roleIdMap parent chs w')"

definition categoryPayload :: "category \<Rightarrow> channel_payload" where
  "categoryPayload cat =
     \<lparr>p_name = sanitizeName (Some (orDefault (cat_name cat) (js ''Category''))),
      p_type = GuildCategory, p_parent = None, p_topic = None, p_nsfw = None,
      p_rateLimitPerUser = None\<rparr>"

text \<open>The loop over \<open>template.categories\<close>. The category is created with a plain
  \<open>guild.channels.create\<close>, without the fallback of \<open>createChannelSafe\<close>.\<close>

fun buildCategories ::
  "'s platform \<Rightarrow> permlib \<Rightarrow> unicode \<Rightarrow> (jsstring \<rightharpoonup> snowflake) \<Rightarrow> category list \<Rightarrow> 's world
     \<Rightarrow> (build_error + unit) \<times> 's world" where
  "buildCategories P L U roleIdMap [] w = (Inr (), w)"
| "buildCategories P L U roleIdMap (cat # cats) w =
     (case guild_channels_create P (categoryPayload cat) w of
        (Inl err, w') \<Rightarrow> (Inl (Rejected err), w')
      | (Inr categoryId, w') \<Rightarrow>
          (case buildChannels P L U roleIdMap categoryId
                  (case cat_channels cat of None \<Rightarrow> [] | Some chs \<Rightarrow> chs) w' of
             (Inl e, w'') \<Rightarrow> (Inl e, w'')
           | (Inr u, w'') \<Rightarrow> buildCategories P L U roleIdMap cats w''))"

definition buildServerFromTemplate ::
  "'s platform \<Rightarrow> permlib \<Rightarrow> unicode \<Rightarrow> template \<Rightarrow> 's world \<Rightarrow> (build_error + unit) \<times> 's world" where
  "buildServerFromTemplate P L U template w =
     (case ensureRoles P L (case roles template of None \<Rightarrow> [] | Some rs \<Rightarrow> rs) w of
        (Inl e, w') \<Rightarrow> (Inl e, w')
      | (Inr roleIdMap, w') \<Rightarrow>
          (case categories template of
             None \<Rightarrow> (Inl TypeError, w')
           | Some cats \<Rightarrow> buildCategories P L U roleIdMap cats w'))"

section \<open>A live structure\<close>

text \<open>
  What \<open>fromGuild\<close> in index.js reads of a live structure: of a role its \<open>id\<close>,
  \<open>name\<close>, \<open>color\<close>, \<open>hoist\<close>, \<open>mentionable\<close>, \<open>permissions.bitfield\<close> and
  \<open>rawPosition\<close>; of a channel its \<open>id\<close>, \<open>name\<close>, \<open>type\<close>, \<open>parentId\<close>,
  \<open>topic\<close>, \<open>nsfw\<close>, \<open>rateLimitPerUser\<close>, \<open>rawPosition\<close> and the overwrites in
  \<open>permissionOverwrites.cache\<close>; of an overwrite its \<open>id\<close>, \<open>type\<close> (0 for a role)
  and the bit fields of \<open>allow\<close> and \<open>deny\<close>.
\<close>

record live_role =
  lr_id :: snowflake
  lr_name :: jsstring
  lr_color :: nat
  lr_hoist :: bool
  lr_mentionable :: bool
  lr_permissions :: int
  lr_rawPosition :: int

record live_overwrite =
  lo_id :: snowflake
  lo_type :: nat
  lo_allow :: int
  lo_deny :: int

record live_channel =
  lc_id :: snowflake
  lc_name :: jsstring
  lc_type :: nat
  lc_parentId :: "snowflake option"
  lc_topic :: "jsstring option"
  lc_nsfw :: bool
  lc_rateLimitPerUser :: nat
  lc_rawPosition :: int
  lc_permissionOverwrites :: "live_overwrite list"

text \<open>The collections are lists in the order in which \<open>fetch()\<close> returns them;
  \<open>g_everyone\<close> is \<open>guild.roles.everyone.id\<close>.\<close>

record guild =
  g_everyone :: snowflake
  g_roles :: "live_role list"
  g_channels :: "live_channel list"

subsection \<open>A service that stores what it is sent\<close>

text \<open>
  The simplest service, for concrete runs and for the round trip: it accepts every call,
  stores the payload as it is, numbers what it creates (the identifier is the decimal
  numeral of the count of roles and channels so far) and gives each new role and each new
  channel the next raw position of its collection. An overwrite for a role that the channel
  already has an overwrite for replaces it.
\<close>

definition freshId :: "guild \<Rightarrow> snowflake" where
  "freshId g = decimal (length (g_roles g) + length (g_channels g))"

definition storeRole :: "role_payload \<Rightarrow> guild \<Rightarrow> (api_error + snowflake) \<times> guild" where
  "storeRole payload g =
     (Inr (freshId g),
      g\<lparr>g_roles := g_roles g @
           [\<lparr>lr_id = freshId g, lr_name = rp_name payload, lr_color = rp_color payload,
             lr_hoist = rp_hoist payload, lr_mentionable = rp_mentionable payload,
             lr_permissions = rp_permissions payload,
             lr_rawPosition = int (length (g_roles g))\<rparr>]\<rparr>)"

definition storeChannel :: "channel_payload \<Rightarrow> guild \<Rightarrow> (api_error + snowflake) \<times> guild" where
  "storeChannel payload g =
     (Inr (freshId g),
      g\<lparr>g_channels := g_channels g @
           [\<lparr>lc_id = freshId g, lc_name = p_name payload, lc_type = p_type payload,
             lc_parentId = p_parent payload, lc_topic = p_topic payload,
             lc_nsfw = (case p_nsfw payload of None \<Rightarrow> False | Some b \<Rightarrow> b),
             lc_rateLimitPerUser = (case p_rateLimitPerUser payload of None \<Rightarrow> 0 | Some n \<Rightarrow> n),
             lc_rawPosition = int (length (g_channels g)),
             lc_permissionOverwrites = []\<rparr>]\<rparr>)"

definition storeOverwrite ::
  "snowflake \<Rightarrow> snowflake \<Rightarrow> int \<Rightarrow> int \<Rightarrow> guild \<Rightarrow> (api_error + unit) \<times> guild" where
  "storeOverwrite channelId roleId a d g =
     (Inr (),
      g\<lparr>g_channels :=
           map (\<lambda>ch. if lc_id ch = channelId
                      then ch\<lparr>lc_permissionOverwrites :=
                                filter (\<lambda>ow. lo_id ow \<noteq> roleId) (lc_permissionOverwrites ch)
                                @ [\<lparr>lo_id = roleId, lo_type = 0, lo_allow = a, lo_deny = d\<rparr>]\<rparr>
                      else ch)
               (g_channels g)\<rparr>)"

definition storePlatform :: "snowflake \<Rightarrow> guild platform" where
  "storePlatform everyone =
     \<lparr>everyoneId = everyone, rolesCreate = storeRole, channelsCreate = storeChannel,
      overwritesCreate = storeOverwrite\<rparr>"

text \<open>An empty target: nothing but the base role, whose identifier is \<open>0\<close>.\<close>

definition emptyTarget :: guild where
  "emptyTarget =
     \<lparr>g_everyone = js ''0'',
      g_roles = [\<lparr>lr_id = js ''0'', lr_name = js ''@everyone'', lr_color = 0, lr_hoist = False,
                  lr_mentionable = False, lr_permissions = 0, lr_rawPosition = 0\<rparr>],
      g_channels = []\<rparr>"

text \<open>A service that rejects the first channel creation with a given error and accepts the
  later ones; its state counts the channel creations.\<close>

definition rejectFirst :: "api_error \<Rightarrow> nat platform" where
  "rejectFirst err =
     \<lparr>everyoneId = js ''0'',
      rolesCreate = (\<lambda>payload n. (Inr (js ''role''), n)),
      channelsCreate = (\<lambda>payload n. (if n = 0 then Inl err else Inr (decimal n), Suc n)),
      overwritesCreate = (\<lambda>channelId roleId a d n. (Inr (), n))\<rparr>"

text \<open>An instance of the library parameter that rejects every permission value that is not
  a string of digits.\<close>

definition digitsOnly :: permlib where
  "digitsOnly s = Inl BitFieldInvalid"

section \<open>Reading the calls of a run\<close>

text \<open>An overwrite is applied when its reference resolves to an identifier that is not
  the empty string (\<open>!mappedRoleId\<close> is false).\<close>

definition resolvable :: "(jsstring \<rightharpoonup> snowflake) \<Rightarrow> overwrite \<Rightarrow> bool" where
  "resolvable m ow = (case m (roleRefId ow) of None \<Rightarrow> False | Some rid \<Rightarrow> rid \<noteq> [])"

definition permOf :: "permlib \<Rightarrow> jsstring option \<Rightarrow> int" where
  "permOf L v = (case normalizePermValue L v of Inr b \<Rightarrow> b | Inl e \<Rightarrow> 0)"


definition roleCall :: "permlib \<Rightarrow> role \<Rightarrow> call" where
  "roleCall L tpl = RolesCreate (rolePayload tpl (permOf L (role_permissions tpl)))"


fun isOverwritesCreate :: "call \<Rightarrow> bool" where
  "isOverwritesCreate (OverwritesCreate channelId roleId a d) = True"
| "isOverwritesCreate c = False"

text \<open>The role templates that \<open>ensureRoles\<close> binds to the base role without a call, and
  the others.\<close>

definition bindsToBase :: "'s platform \<Rightarrow> role \<Rightarrow> bool" where
  "bindsToBase P tpl = (isEveryone tpl \<or> refId tpl = everyoneId P)"

definition creatable :: "'s platform \<Rightarrow> role list \<Rightarrow> role list" where
  "creatable P rs = filter (\<lambda>tpl. \<not> bindsToBase P tpl) rs"

definition rolesOf :: "template \<Rightarrow> role list" where
  "rolesOf t = (case roles t of None \<Rightarrow> [] | Some rs \<Rightarrow> rs)"

definition channelsOf :: "category \<Rightarrow> channel list" where
  "channelsOf cat = (case cat_channels cat of None \<Rightarrow> [] | Some chs \<Rightarrow> chs)"

text \<open>A call of the structure phase for a list of categories: the creation of one of the
  categories, the creation of one of their channels (with the topic, or without it in the
  fallback of \<open>createChannelSafe\<close>), or an overwrite.\<close>

definition channelCall :: "unicode \<Rightarrow> channel \<Rightarrow> call \<Rightarrow> bool" where
  "channelCall U ch c =
     (\<exists>parent. c = ChannelsCreate (channelPayload U parent ch)
             \<or> c = ChannelsCreate ((channelPayload U parent ch)\<lparr>p_topic := None\<rparr>))"

definition structureCall :: "unicode \<Rightarrow> category list \<Rightarrow> call \<Rightarrow> bool" where
  "structureCall U cats c =
     (isOverwritesCreate c
      \<or> (\<exists>cat \<in> set cats. c = ChannelsCreate (categoryPayload cat)
            \<or> (\<exists>ch \<in> set (channelsOf cat). channelCall U ch c)))"

definition categoriesOfTemplate :: "template \<Rightarrow> category list" where
  "categoriesOfTemplate t = (case categories t of None \<Rightarrow> [] | Some cats \<Rightarrow> cats)"

subsection \<open>Inputs of the concrete runs\<close>

definition rulesChannel :: "overwrite list \<Rightarrow> channel" where
  "rulesChannel ows =
     \<lparr>ch_name = Some (js ''rules''), ch_type = TypeStr (js ''text''),
      ch_topic = Some (js ''Server rules.''), ch_nsfw = False, ch_slowmode = 0,
      ch_overwrites = Some ows\<rparr>"

definition rulesPayload :: channel_payload where
  "rulesPayload =
     \<lparr>p_name = js ''rules'', p_type = 0, p_parent = Some (js ''7''),
      p_topic = Some (js ''Server rules.''), p_nsfw = Some False, p_rateLimitPerUser = Some 0\<rparr>"

definition ghostOverwrite :: overwrite where
  "ghostOverwrite = \<lparr>roleRefId = js ''ghost'', allow = Some (js ''1024''), deny = Some (js ''0'')\<rparr>"

definition everyoneOverwrite :: overwrite where
  "everyoneOverwrite =
     \<lparr>roleRefId = js ''everyone'', allow = Some (js ''65536''), deny = Some (js ''0'')\<rparr>"

text \<open>Two rejections of the service: one that names the topic, and the generic "Invalid
  Form Body" code 50035 for another field.\<close>

definition topicError :: api_error where
  "topicError = \<lparr>err_code = Some 50035, err_topic = True, err_message = js ''Invalid Form Body''\<rparr>"

definition nameError :: api_error where
  "nameError = \<lparr>err_code = Some 50035, err_topic = False, err_message = js ''Invalid Form Body''\<rparr>"

definition modRole :: "jsstring \<Rightarrow> role" where
  "modRole rid =
     \<lparr>refId = rid, role_name = js ''Moderator'', role_color = 16749645, role_hoist = False,
      role_mentionable = True, role_permissions = Some (js ''6''), isEveryone = False\<rparr>"

definition baseRole :: role where
  "baseRole =
     \<lparr>refId = js ''900'', role_name = js ''@everyone'', role_color = 0, role_hoist = False,
      role_mentionable = False, role_permissions = Some (js ''0''), isEveryone = True\<rparr>"


definition longName :: jsstring where
  "longName = js ''  '' @ replicate 100 120 @ js '' ''"





text \<open>The template of the concrete runs with a second role to create, whose permission
  string has leading zeros.\<close>

definition mixedTemplate :: template where
  "mixedTemplate =
     \<lparr>categories = Some [\<lparr>cat_name = Some (js ''INFORMATION''),
                           cat_channels = Some [rulesChannel [everyoneOverwrite]]\<rparr>],
      roles = Some [baseRole, modRole (js ''r1''),
                    (modRole (js ''r2''))\<lparr>role_permissions := Some (js ''007'')\<rparr>],
      summary = []\<rparr>"

section \<open>The text parser (textParser.js)\<close>

subsection \<open>Regular expressions and string methods\<close>

text \<open>
  The regular expressions of the parser are written out as functions on code units. With the
  flag \<open>i\<close> and without the flag \<open>u\<close>, a letter of a pattern matches its two ASCII
  cases and nothing else; patterns are given in lower case.
\<close>

definition isWordChar :: "nat \<Rightarrow> bool" where
  "isWordChar c = (isUpperAscii c \<or> isLowerAscii c \<or> isDigit c \<or> c = 95)"

definition isHexDigit :: "nat \<Rightarrow> bool" where
  "isHexDigit c = (isDigit c \<or> (97 \<le> c \<and> c \<le> 102) \<or> (65 \<le> c \<and> c \<le> 70))"

text \<open>\<open>matchCI pat s\<close>: \<open>s\<close> begins with \<open>pat\<close>, ignoring ASCII case; the result is
  what follows.\<close>

fun matchCI :: "jsstring \<Rightarrow> jsstring \<Rightarrow> jsstring option" where
  "matchCI [] s = Some s"
| "matchCI (p # ps) [] = None"
| "matchCI (p # ps) (c # cs) = (if lowerAscii c = p then matchCI ps cs else None)"

text \<open>\<open>test\<close>: the pattern matches at some position.\<close>

fun anywhere :: "(jsstring \<Rightarrow> bool) \<Rightarrow> jsstring \<Rightarrow> bool" where
  "anywhere P [] = P []"
| "anywhere P (c # cs) = (P (c # cs) \<or> anywhere P cs)"

text \<open>\<open>match\<close>: the leftmost position at which the pattern matches, with what the
  matcher returns there and the text before.\<close>

fun findFirst :: "(jsstring \<Rightarrow> 'a option) \<Rightarrow> jsstring \<Rightarrow> (jsstring \<times> 'a) option" where
  "findFirst f [] = (case f [] of None \<Rightarrow> None | Some r \<Rightarrow> Some ([], r))"
| "findFirst f (c # cs) =
     (case f (c # cs) of
        Some r \<Rightarrow> Some ([], r)
      | None \<Rightarrow> (case findFirst f cs of None \<Rightarrow> None | Some (pre, r) \<Rightarrow> Some (c # pre, r)))"

text \<open>\<open>replace(regex, '')\<close> without the flag \<open>g\<close>: the leftmost match is removed. The
  matcher returns what follows the match.\<close>

fun removeFirstMatch :: "(jsstring \<Rightarrow> jsstring option) \<Rightarrow> jsstring \<Rightarrow> jsstring" where
  "removeFirstMatch f [] = (case f [] of None \<Rightarrow> [] | Some r \<Rightarrow> r)"
| "removeFirstMatch f (c # cs) =
     (case f (c # cs) of Some r \<Rightarrow> r | None \<Rightarrow> c # removeFirstMatch f cs)"

text \<open>\<open>replace(string, '')\<close>: the first occurrence of the string is removed.\<close>

fun removeFirstString :: "jsstring \<Rightarrow> jsstring \<Rightarrow> jsstring" where
  "removeFirstString pat [] = []"
| "removeFirstString pat (c # cs) =
     (if take (length pat) (c # cs) = pat then drop (length pat) (c # cs)
      else c # removeFirstString pat cs)"

text \<open>\<open>replace(/X{n,}/g, rep)\<close> for a character class \<open>X\<close>: every maximal run of at
  least \<open>n\<close> characters of the class is replaced by \<open>rep\<close>.\<close>

function replaceRuns :: "(nat \<Rightarrow> bool) \<Rightarrow> nat \<Rightarrow> jsstring \<Rightarrow> jsstring \<Rightarrow> jsstring" where
  "replaceRuns X n rep [] = []"
| "replaceRuns X n rep (c # cs) =
     (if X c
      then (if Suc (length (takeWhile X cs)) \<ge> n then rep else c # takeWhile X cs)
           @ replaceRuns X n rep (dropWhile X cs)
      else c # replaceRuns X n rep cs)"
  by pat_completeness auto
termination
  by (relation "measure (\<lambda>(X, n, rep, s). length s)")
     (auto simp: length_dropWhile_le less_Suc_eq_le)

text \<open>\<open>split\<close> on a character; the second argument is the piece read so far.\<close>

fun splitOn :: "nat \<Rightarrow> jsstring \<Rightarrow> jsstring \<Rightarrow> jsstring list" where
  "splitOn d [] cur = [cur]"
| "splitOn d (c # cs) cur = (if c = d then cur # splitOn d cs [] else splitOn d cs (cur @ [c]))"

text \<open>\<open>raw.split(/\r?\n/)\<close>.\<close>

fun splitLines :: "jsstring \<Rightarrow> jsstring \<Rightarrow> jsstring list" where
  "splitLines [] cur = [cur]"
| "splitLines [c] cur = (if c = 10 then [cur, []] else [cur @ [c]])"
| "splitLines (c # d # cs) cur =
     (if c = 10 then cur # splitLines (d # cs) []
      else if c = 13 \<and> d = 10 then cur # splitLines cs []
      else splitLines (d # cs) (cur @ [c]))"

definition includesStr :: "jsstring \<Rightarrow> jsstring \<Rightarrow> bool" where
  "includesStr s sub = anywhere (\<lambda>t. take (length sub) t = sub) s"

definition hexDigitValue :: "nat \<Rightarrow> nat" where
  "hexDigitValue c = (if isDigit c then c - 48 else if 97 \<le> c then c - 87 else c - 55)"

text \<open>\<open>parseInt(s, 16)\<close> on a string of hexadecimal digits.\<close>

definition parseHex :: "jsstring \<Rightarrow> nat" where
  "parseHex s = foldl (\<lambda>acc c. 16 * acc + hexDigitValue c) 0 s"

subsection \<open>normalizeLine\<close>

definition isBarGlyph :: "nat \<Rightarrow> bool" where
  "isBarGlyph c =
     (c = 9474 \<or> c = 9475 \<or> c = 9478 \<or> c = 9482 \<or> c = 9479 \<or> c = 9483 \<or> c = 65372 \<or> c = 166)"

definition normalizeLine :: "jsstring \<Rightarrow> jsstring" where
  "normalizeLine str =
     map (\<lambda>c. if c = 8211 \<or> c = 8212 then 45 else c)
       (map (\<lambda>c. if isBarGlyph c then 124 else c)
         (map (\<lambda>c. if c = 160 then 32 else c)
           (filter (\<lambda>c. c \<noteq> 8203)
             (filter (\<lambda>c. c \<noteq> 65279) str))))"

subsection \<open>Permissions in a line\<close>

text \<open>\<open>/permissions:\s*\[([^\]]*)\]/i\<close> at the head of a string: the group and what
  follows the match.\<close>

definition permissionsAt :: "jsstring \<Rightarrow> (jsstring \<times> jsstring) option" where
  "permissionsAt s =
     (case matchCI (js ''permissions:'') s of
        None \<Rightarrow> None
      | Some r \<Rightarrow>
          (case dropWhile isWhiteSpace r of
             [] \<Rightarrow> None
           | b # inner \<Rightarrow>
               if b = 91
               then (case dropWhile (\<lambda>c. c \<noteq> 93) inner of
                       [] \<Rightarrow> None
                     | e # rest \<Rightarrow> Some (takeWhile (\<lambda>c. c \<noteq> 93) inner, rest))
               else None))"

definition extractPermissions :: "jsstring \<Rightarrow> jsstring list" where
  "extractPermissions line =
     (case findFirst permissionsAt line of
        None \<Rightarrow> []
      | Some (pre, inner, rest) \<Rightarrow> filter (\<lambda>p. p \<noteq> []) (map trim (splitOn 44 inner [])))"

subsection \<open>Role lines\<close>

text \<open>\<open>/color:\s*#/i\<close> at the head of a string.\<close>

definition colorMarkAt :: "jsstring \<Rightarrow> bool" where
  "colorMarkAt s =
     (case matchCI (js ''color:'') s of
        None \<Rightarrow> False
      | Some r \<Rightarrow> (case dropWhile isWhiteSpace r of [] \<Rightarrow> False | h # hs \<Rightarrow> h = 35))"

definition isRoleLine :: "jsstring \<Rightarrow> bool" where
  "isRoleLine line = anywhere colorMarkAt line"

text \<open>\<open>/color:\s*(#[0-9a-fA-F]{6})/i\<close> at the head of a string: the whole match and the
  group.\<close>

definition colorAt :: "jsstring \<Rightarrow> (jsstring \<times> jsstring) option" where
  "colorAt s =
     (case matchCI (js ''color:'') s of
        None \<Rightarrow> None
      | Some r \<Rightarrow>
          (case dropWhile isWhiteSpace r of
             [] \<Rightarrow> None
           | h # hs \<Rightarrow>
               if h = 35 \<and> length hs \<ge> 6 \<and> list_all isHexDigit (take 6 hs)
               then Some (take (6 + length (takeWhile isWhiteSpace r) + 7) s, h # take 6 hs)
               else None))"

text \<open>\<open>refId\<close> is the \<open>refId\<close> that the clock and the random generator give to this
  role.\<close>

definition buildRoleFromLine :: "unicode \<Rightarrow> flags \<Rightarrow> jsstring \<Rightarrow> jsstring \<Rightarrow> role option" where
  "buildRoleFromLine U F rid line =
     (case findFirst colorAt line of
        None \<Rightarrow> None
      | Some (pre, whole, grp) \<Rightarrow>
          (let color = parseHex (removeFirstString (js ''#'') grp);
               perms = extractPermissions line;
               namePart = trim (removeFirstMatch (\<lambda>s. map_option snd (permissionsAt s))
                                  (removeFirstString whole line));
               cleanName = trim (replaceRuns isWhiteSpace 2 (js '' '') namePart)
           in if cleanName = [] then None
              else Some \<lparr>refId = rid, role_name = cleanName, role_color = color,
                         role_hoist = False, role_mentionable = True,
                         role_permissions = Some (decimal (permissionsToBitfield U F perms)),
                         isEveryone = False\<rparr>))"

subsection \<open>Channel and category lines\<close>

text \<open>\<open>/type:\s*(text|voice)/i\<close> and \<open>/type:\s*voice/i\<close> at the head of a string.\<close>

definition typeAt :: "jsstring \<Rightarrow> bool" where
  "typeAt s =
     (case matchCI (js ''type:'') s of
        None \<Rightarrow> False
      | Some r \<Rightarrow> matchCI (js ''text'') (dropWhile isWhiteSpace r) \<noteq> None
                  \<or> matchCI (js ''voice'') (dropWhile isWhiteSpace r) \<noteq> None)"

definition typeVoiceAt :: "jsstring \<Rightarrow> bool" where
  "typeVoiceAt s =
     (case matchCI (js ''type:'') s of
        None \<Rightarrow> False
      | Some r \<Rightarrow> matchCI (js ''voice'') (dropWhile isWhiteSpace r) \<noteq> None)"

text \<open>\<open>/\bvoice\b/i\<close>: the word is not preceded and not followed by a word character.
  \<open>prev\<close> says whether the character before is a word character.\<close>

fun voiceWordFrom :: "bool \<Rightarrow> jsstring \<Rightarrow> bool" where
  "voiceWordFrom prev [] = False"
| "voiceWordFrom prev (c # cs) =
     ((\<not> prev \<and> (case matchCI (js ''voice'') (c # cs) of
                    None \<Rightarrow> False
                  | Some r \<Rightarrow> (case r of [] \<Rightarrow> True | d # ds \<Rightarrow> \<not> isWordChar d)))
      \<or> voiceWordFrom (isWordChar c) cs)"

definition hasVoiceWord :: "jsstring \<Rightarrow> bool" where
  "hasVoiceWord s = voiceWordFrom False s"

text \<open>\<open>/#\S+/\<close> at the head of a string.\<close>

definition hashTokenAt :: "jsstring \<Rightarrow> bool" where
  "hashTokenAt s = (case s of c # d # ds \<Rightarrow> c = 35 \<and> \<not> isWhiteSpace d | _ \<Rightarrow> False)"

definition looksLikeChannel :: "jsstring \<Rightarrow> bool" where
  "looksLikeChannel line =
     (let normalized = normalizeLine line;
          hasPipe = (124 \<in> set normalized);
          hasHash = anywhere hashTokenAt normalized;
          hasType = anywhere typeAt normalized;
          hasVoice = hasVoiceWord normalized
      in hasPipe \<or> hasHash \<or> hasType \<or> hasVoice)"

definition isCategoryLine :: "jsstring \<Rightarrow> bool" where
  "isCategoryLine line = anywhere (\<lambda>s. matchCI (js ''(category)'') s \<noteq> None) line"

text \<open>
  \<open>replace(/[^\p{L}\p{N}...]/gu, ' ')\<close>: with the flag \<open>u\<close> the string is read by code
  points, so a surrogate pair is one character; it is kept (both units) when its code point is
  a letter or a number and becomes one space otherwise. \<open>keep\<close> is the rest of the class
  (white space and the separators). A surrogate that stands alone is not a letter.
\<close>

definition isHighSurrogate :: "nat \<Rightarrow> bool" where
  "isHighSurrogate c = (55296 \<le> c \<and> c \<le> 56319)"

definition isLowSurrogate :: "nat \<Rightarrow> bool" where
  "isLowSurrogate c = (56320 \<le> c \<and> c \<le> 57343)"

definition isLetterOrNumber :: "unicode \<Rightarrow> nat \<Rightarrow> bool" where
  "isLetterOrNumber U c =
     (if c < 128 then isUpperAscii c \<or> isLowerAscii c \<or> isDigit c
      else if isHighSurrogate c \<or> isLowSurrogate c then False
      else letterOrNumber U c)"

fun replaceSymbols :: "unicode \<Rightarrow> (nat \<Rightarrow> bool) \<Rightarrow> jsstring \<Rightarrow> jsstring" where
  "replaceSymbols U keep [] = []"
| "replaceSymbols U keep [c] = [if isLetterOrNumber U c \<or> keep c then c else 32]"
| "replaceSymbols U keep (c # d # cs) =
     (if isHighSurrogate c \<and> isLowSurrogate d
      then (if letterOrNumber U (65536 + (c - 55296) * 1024 + (d - 56320))
            then c # d # replaceSymbols U keep cs
            else 32 # replaceSymbols U keep cs)
      else (if isLetterOrNumber U c \<or> keep c then c else 32) # replaceSymbols U keep (d # cs))"

definition cleanCategoryName :: "unicode \<Rightarrow> jsstring \<Rightarrow> jsstring" where
  "cleanCategoryName U name =
     (let normalized = removeFirstMatch (matchCI (js ''(category)'')) (normalizeLine name);
          noEmoji = replaceRuns isWhiteSpace 2 (js '' '')
                      (replaceSymbols U (\<lambda>c. isWhiteSpace c \<or> c = 45) normalized);
          clean = trim noEmoji
      in if clean = [] then js ''Category'' else clean)"

definition trimHyphens :: "jsstring \<Rightarrow> jsstring" where
  "trimHyphens s = rev (dropWhile (\<lambda>c. c = 45) (rev (dropWhile (\<lambda>c. c = 45) s)))"

definition slugifyPreserve :: "unicode \<Rightarrow> jsstring \<Rightarrow> jsstring" where
  "slugifyPreserve U str =
     (if str = [] then js ''channel''
      else
        (let normalized = replaceSymbols U (\<lambda>c. isWhiteSpace c \<or> c = 95 \<or> c = 45) (normalizeLine str);
             safe = trimHyphens (replaceRuns (\<lambda>c. c = 45) 1 (js ''-'')
                                   (replaceRuns isWhiteSpace 1 (js ''-'') normalized));
             lower = toLowerCase U safe
         in if lower = [] then js ''channel'' else lower))"

definition suggestDescription :: "unicode \<Rightarrow> jsstring \<Rightarrow> bool \<Rightarrow> jsstring" where
  "suggestDescription U name isVoice =
     (let key = toLowerCase U name
      in if includesStr key (js ''welcome'') then js ''Welcome channel with server info.''
         else if includesStr key (js ''rules'') then js ''Server rules.''
         else if includesStr key (js ''announce'') \<or> includesStr key (js ''news'') then js ''Announcements.''
         else if includesStr key (js ''chat'') \<or> includesStr key (js ''general'') then js ''General chat.''
         else if includesStr key (js ''support'') then js ''Support channel.''
         else if isVoice then js ''A voice channel for talking.''
         else js ''Auto generated description.'')"

text \<open>
  \<open>/-\s+(.+)/\<close> at the head of the text after a hyphen. The white space is matched
  greedily and given back one character at a time until the group can begin: the group
  begins at a character that is not a line terminator and runs up to the next line
  terminator. \<open>k\<close> is the number of white space characters that \<open>\s+\<close> keeps.
\<close>

fun topicGroup :: "nat \<Rightarrow> jsstring \<Rightarrow> jsstring option" where
  "topicGroup 0 rest = None"
| "topicGroup (Suc k) rest =
     (case drop (Suc k) rest of
        [] \<Rightarrow> topicGroup k rest
      | c # cs \<Rightarrow>
          if isLineTerminator c then topicGroup k rest
          else Some (takeWhile (\<lambda>x. \<not> isLineTerminator x) (c # cs)))"

definition topicAt :: "jsstring \<Rightarrow> jsstring option" where
  "topicAt s =
     (case s of
        [] \<Rightarrow> None
      | c # rest \<Rightarrow> if c = 45 then topicGroup (length (takeWhile isWhiteSpace rest)) rest else None)"

definition extractTopic :: "jsstring \<Rightarrow> jsstring option" where
  "extractTopic line =
     (case findFirst topicAt line of None \<Rightarrow> None | Some (pre, grp) \<Rightarrow> Some (trim grp))"

text \<open>\<open>/#([\w-]+)/\<close> at the head of a string: the group.\<close>

definition hashNameAt :: "jsstring \<Rightarrow> jsstring option" where
  "hashNameAt s =
     (case s of
        [] \<Rightarrow> None
      | c # r \<Rightarrow>
          if c = 35 \<and> takeWhile (\<lambda>d. isWordChar d \<or> d = 45) r \<noteq> []
          then Some (takeWhile (\<lambda>d. isWordChar d \<or> d = 45) r)
          else None)"

text \<open>The channel that \<open>buildChannelFromLine\<close> returns. Its field \<open>private: false\<close>,
  which nothing reads, is left out.\<close>

definition buildChannelFromLine :: "unicode \<Rightarrow> flags \<Rightarrow> jsstring \<Rightarrow> channel" where
  "buildChannelFromLine U F line =
     (let normalized = normalizeLine line;
          isVoice = (anywhere typeVoiceAt normalized \<or> hasVoiceWord normalized);
          withoutPrefix = dropWhile (\<lambda>c. c = 45 \<or> isWhiteSpace c \<or> c = 124) normalized;
          namePart0 = (case findFirst hashNameAt normalized of
                         Some (pre, grp) \<Rightarrow> grp
                       | None \<Rightarrow>
                           trim (case takeWhile (\<lambda>c. c \<noteq> 124) withoutPrefix of
                                   [] \<Rightarrow> []
                                 | c # r \<Rightarrow> if c = 35 then r else c # r));
          namePart = (if namePart0 = [] then takeWhile (\<lambda>c. \<not> isWhiteSpace c) withoutPrefix
                      else namePart0);
          safeName = slugifyPreserve U namePart;
          topic = (case extractTopic normalized of
                     None \<Rightarrow> suggestDescription U safeName isVoice
                   | Some t \<Rightarrow> if t = [] then suggestDescription U safeName isVoice else t);
          perms = extractPermissions normalized;
          allowBits = (if length perms > 0 then Some (decimal (permissionsToBitfield U F perms))
                       else None);
          overwrites = (case allowBits of
                          None \<Rightarrow> None
                        | Some bits \<Rightarrow>
                            Some [\<lparr>roleRefId = js ''everyone'', allow = Some bits,
                                   deny = Some (js ''0'')\<rparr>])
      in \<lparr>ch_name = Some (if safeName = [] then js ''channel'' else safeName),
          ch_type = TypeStr (if isVoice then js ''voice'' else js ''text''),
          ch_topic = Some topic, ch_nsfw = False, ch_slowmode = 0, ch_overwrites = overwrites\<rparr>)"

subsection \<open>parseTextStructure\<close>

text \<open>
  The state of the loop: the two arrays of the template and \<open>currentCategory\<close>, which is
  \<open>null\<close> or refers to one of the categories of the array, here by its index. \<open>R\<close>
  gives the \<open>refId\<close> drawn for the role that is built after \<open>n\<close> others.
\<close>

record parse_state =
  ps_categories :: "category list"
  ps_roles :: "role list"
  currentCategory :: "nat option"

definition pushCategory :: "jsstring \<Rightarrow> parse_state \<Rightarrow> parse_state" where
  "pushCategory name st =
     st\<lparr>ps_categories := ps_categories st @ [\<lparr>cat_name = Some name, cat_channels = Some []\<rparr>],
        currentCategory := Some (length (ps_categories st))\<rparr>"

definition pushChannel :: "channel \<Rightarrow> parse_state \<Rightarrow> parse_state" where
  "pushChannel ch st =
     (case currentCategory st of
        None \<Rightarrow> st
      | Some i \<Rightarrow>
          st\<lparr>ps_categories :=
               (ps_categories st)
                 [i := (ps_categories st ! i)
                         \<lparr>cat_channels := Some (channelsOf (ps_categories st ! i) @ [ch])\<rparr>]\<rparr>)"

definition parseLine :: "unicode \<Rightarrow> flags \<Rightarrow> (nat \<Rightarrow> jsstring) \<Rightarrow> jsstring \<Rightarrow> parse_state \<Rightarrow> parse_state" where
  "parseLine U F R line st =
     (if isRoleLine line
      then (case buildRoleFromLine U F (R (length (ps_roles st))) line of
              None \<Rightarrow> st
            | Some role \<Rightarrow> st\<lparr>ps_roles := ps_roles st @ [role]\<rparr>)
      else
        (let trimmed = normalizeLine (trim line);
             isChannel = looksLikeChannel trimmed;
             isCategory = (isCategoryLine trimmed
                           \<or> (\<not> isChannel \<and> \<not> (case trimmed of [] \<Rightarrow> False | c # r \<Rightarrow> c = 45)))
         in if isCategory then pushCategory (cleanCategoryName U trimmed) st
            else pushChannel (buildChannelFromLine U F trimmed)
                   (case currentCategory st of
                      None \<Rightarrow> pushCategory (js ''General'') st
                    | Some i \<Rightarrow> st)))"

fun parseLines :: "unicode \<Rightarrow> flags \<Rightarrow> (nat \<Rightarrow> jsstring) \<Rightarrow> jsstring list \<Rightarrow> parse_state \<Rightarrow> parse_state" where
  "parseLines U F R [] st = st"
| "parseLines U F R (line # rest) st = parseLines U F R rest (parseLine U F R line st)"

text \<open>The loop that adds up \<open>cat.channels.length\<close>.\<close>

fun sumChannels :: "nat \<Rightarrow> category list \<Rightarrow> nat" where
  "sumChannels channelTotal [] = channelTotal"
| "sumChannels channelTotal (cat # cats) =
     sumChannels (channelTotal + length (channelsOf cat)) cats"

definition inputLines :: "jsstring \<Rightarrow> jsstring list" where
  "inputLines raw =
     filter (\<lambda>l. l \<noteq> []) (map (\<lambda>l. normalizeLine (trimEnd l)) (splitLines raw []))"

definition parseTextStructure :: "unicode \<Rightarrow> flags \<Rightarrow> (nat \<Rightarrow> jsstring) \<Rightarrow> jsstring \<Rightarrow> template" where
  "parseTextStructure U F R raw =
     (let st = parseLines U F R (inputLines raw)
                 \<lparr>ps_categories = [], ps_roles = [], currentCategory = None\<rparr>;
          channelTotal = sumChannels 0 (ps_categories st)
      in \<lparr>categories = Some (ps_categories st), roles = Some (ps_roles st),
          summary = decimal (length (ps_categories st)) @ js '' categories / ''
                    @ decimal channelTotal @ js '' channels''\<rparr>)"

text \<open>An overwrite list that grants to the base role only.\<close>

definition baseOnly :: "channel \<Rightarrow> bool" where
  "baseOnly ch =
     (case ch_overwrites ch of
        None \<Rightarrow> True
      | Some ows \<Rightarrow>
          (\<exists>bits. ows = [\<lparr>roleRefId = js ''everyone'', allow = Some bits, deny = Some (js ''0'')\<rparr>]))"

definition wellParsed :: "category list \<Rightarrow> bool" where
  "wellParsed cats =
     (\<forall>cat \<in> set cats. cat_channels cat \<noteq> None \<and> (\<forall>ch \<in> set (channelsOf cat). baseOnly ch))"

text \<open>The two inputs of the examples.\<close>

definition rulesLine :: jsstring where
  "rulesLine = js ''#rules | Type: text | Permissions: [View Channel, Read Message History]''"

definition informationInput :: jsstring where
  "informationInput = js ''INFORMATION'' @ [10] @ js ''  '' @ rulesLine"

definition ownerInput :: jsstring where
  "ownerInput = js ''Owner | Color: #ff0000 | Permissions: [Administrator, Manage Roles]''"

subsection \<open>The parser with the exception of the library\<close>

text \<open>
  The one operation of the parser that can throw is \<open>new PermissionsBitField(mapped)\<close> in
  \<open>permissionsToBitfield\<close>: discord.js resolves each name of \<open>mapped\<close> in its table
  \<open>PermissionsBitField.Flags\<close> and throws a \<open>RangeError\<close> (\<open>BitFieldInvalid\<close>) for a name
  that the table does not define; then it folds the bits with \<open>|\<close>. The table belongs to
  the library, so here it is a parameter that may leave a name undefined. The functions below
  are the functions of the parser above with this exception written out: where the source
  calls \<open>permissionsToBitfield\<close>, an exception ends the call of \<open>parseTextStructure\<close>.
  Every other operation of the parser (the regular expressions, the string methods,
  \<open>parseInt\<close>, the array methods) returns for every string.
\<close>

datatype parse_error = FlagInvalid perm_flag

type_synonym flag_table = "perm_flag \<Rightarrow> nat option"

text \<open>\<open>bit.map(b => this.resolve(b))\<close>.\<close>

fun resolveAll :: "flag_table \<Rightarrow> perm_flag list \<Rightarrow> parse_error + nat list" where
  "resolveAll T [] = Inr []"
| "resolveAll T (f # fs) =
     (case T f of
        None \<Rightarrow> Inl (FlagInvalid f)
      | Some b \<Rightarrow> (case resolveAll T fs of Inl e \<Rightarrow> Inl e | Inr bs \<Rightarrow> Inr (b # bs)))"

definition newPermissionsBitField :: "flag_table \<Rightarrow> perm_flag list \<Rightarrow> parse_error + nat" where
  "newPermissionsBitField T fs =
     (case resolveAll T fs of
        Inl e \<Rightarrow> Inl e
      | Inr bs \<Rightarrow> Inr (foldl (\<lambda>prev b. prev OR b) 0 bs))"

definition permissionsToBitfield_exn :: "unicode \<Rightarrow> flag_table \<Rightarrow> jsstring list \<Rightarrow> parse_error + nat" where
  "permissionsToBitfield_exn U T perms = newPermissionsBitField T (mappedFlags U perms)"

definition buildRoleFromLine_exn ::
  "unicode \<Rightarrow> flag_table \<Rightarrow> jsstring \<Rightarrow> jsstring \<Rightarrow> parse_error + role option" where
  "buildRoleFromLine_exn U T rid line =
     (case findFirst colorAt line of
        None \<Rightarrow> Inr None
      | Some (pre, whole, grp) \<Rightarrow>
          (let color = parseHex (removeFirstString (js ''#'') grp);
               perms = extractPermissions line;
               namePart = trim (removeFirstMatch (\<lambda>s. map_option snd (permissionsAt s))
                                  (removeFirstString whole line));
               cleanName = trim (replaceRuns isWhiteSpace 2 (js '' '') namePart)
           in if cleanName = [] then Inr None
              else
                (case permissionsToBitfield_exn U T perms of
                   Inl e \<Rightarrow> Inl e
                 | Inr bits \<Rightarrow>
                     Inr (Some \<lparr>refId = rid, role_name = cleanName, role_color = color,
                                role_hoist = False, role_mentionable = True,
                                role_permissions = Some (decimal bits),
                                isEveryone = False\<rparr>))))"

definition buildChannelFromLine_exn :: "unicode \<Rightarrow> flag_table \<Rightarrow> jsstring \<Rightarrow> parse_error + channel" where
  "buildChannelFromLine_exn U T line =
     (let normalized = normalizeLine line;
          isVoice = (anywhere typeVoiceAt normalized \<or> hasVoiceWord normalized);
          withoutPrefix = dropWhile (\<lambda>c. c = 45 \<or> isWhiteSpace c \<or> c = 124) normalized;
          namePart0 = (case findFirst hashNameAt normalized of
                         Some (pre, grp) \<Rightarrow> grp
                       | None \<Rightarrow>
                           trim (case takeWhile (\<lambda>c. c \<noteq> 124) withoutPrefix of
                                   [] \<Rightarrow> []
                                 | c # r \<Rightarrow> if c = 35 then r else c # r));
          namePart = (if namePart0 = [] then takeWhile (\<lambda>c. \<not> isWhiteSpace c) withoutPrefix
                      else namePart0);
          safeName = slugifyPreserve U namePart;
          topic = (case extractTopic normalized of
                     None \<Rightarrow> suggestDescription U safeName isVoice
                   | Some t \<Rightarrow> if t = [] then suggestDescription U safeName isVoice else t);
          perms = extractPermissions normalized
      in case (if length perms > 0
               then (case permissionsToBitfield_exn U T perms of
                       Inl e \<Rightarrow> Inl e
                     | Inr bits \<Rightarrow> Inr (Some (decimal bits)))
               else Inr None) of
           Inl e \<Rightarrow> Inl e
         | Inr allowBits \<Rightarrow>
             Inr \<lparr>ch_name = Some (if safeName = [] then js ''channel'' else safeName),
                  ch_type = TypeStr (if isVoice then js ''voice'' else js ''text''),
                  ch_topic = Some topic, ch_nsfw = False, ch_slowmode = 0,
                  ch_overwrites =
                    (case allowBits of
                       None \<Rightarrow> None
                     | Some bits \<Rightarrow>
                         Some [\<lparr>roleRefId = js ''everyone'', allow = Some bits,
                                deny = Some (js ''0'')\<rparr>])\<rparr>)"

definition parseLine_exn ::
  "unicode \<Rightarrow> flag_table \<Rightarrow> (nat \<Rightarrow> jsstring) \<Rightarrow> jsstring \<Rightarrow> parse_state
     \<Rightarrow> parse_error + parse_state" where
  "parseLine_exn U T R line st =
     (if isRoleLine line
      then (case buildRoleFromLine_exn U T (R (length (ps_roles st))) line of
              Inl e \<Rightarrow> Inl e
            | Inr None \<Rightarrow> Inr st
            | Inr (Some role) \<Rightarrow> Inr (st\<lparr>ps_roles := ps_roles st @ [role]\<rparr>))
      else
        (let trimmed = normalizeLine (trim line);
             isChannel = looksLikeChannel trimmed;
             isCategory = (isCategoryLine trimmed
                           \<or> (\<not> isChannel \<and> \<not> (case trimmed of [] \<Rightarrow> False | c # r \<Rightarrow> c = 45)))
         in if isCategory then Inr (pushCategory (cleanCategoryName U trimmed) st)
            else
              (case buildChannelFromLine_exn U T trimmed of
                 Inl e \<Rightarrow> Inl e
               | Inr ch \<Rightarrow>
                   Inr (pushChannel ch
                          (case currentCategory st of
                             None \<Rightarrow> pushCategory (js ''General'') st
                           | Some i \<Rightarrow> st)))))"

fun parseLines_exn ::
  "unicode \<Rightarrow> flag_table \<Rightarrow> (nat \<Rightarrow> jsstring) \<Rightarrow> jsstring list \<Rightarrow> parse_state
     \<Rightarrow> parse_error + parse_state" where
  "parseLines_exn U T R [] st = Inr st"
| "parseLines_exn U T R (line # rest) st =
     (case parseLine_exn U T R line st of
        Inl e \<Rightarrow> Inl e
      | Inr st' \<Rightarrow> parseLines_exn U T R rest st')"

definition parseTextStructure_exn ::
  "unicode \<Rightarrow> flag_table \<Rightarrow> (nat \<Rightarrow> jsstring) \<Rightarrow> jsstring \<Rightarrow> parse_error + template" where
  "parseTextStructure_exn U T R raw =
     (case parseLines_exn U T R (inputLines raw)
             \<lparr>ps_categories = [], ps_roles = [], currentCategory = None\<rparr> of
        Inl e \<Rightarrow> Inl e
      | Inr st \<Rightarrow>
          (let channelTotal = sumChannels 0 (ps_categories st)
           in Inr \<lparr>categories = Some (ps_categories st), roles = Some (ps_roles st),
                   summary = decimal (length (ps_categories st)) @ js '' categories / ''
                             @ decimal channelTotal @ js '' channels''\<rparr>))"

subsection \<open>The branch of the loop that a line takes\<close>

text \<open>The loop of \<open>parseTextStructure\<close> has three branches: the line is a role line; or it
  opens a category; or it is a channel of the current category.\<close>

datatype line_kind = RoleLine | CategoryLine | ChannelLine

definition lineKind :: "jsstring \<Rightarrow> line_kind" where
  "lineKind line =
     (if isRoleLine line then RoleLine
      else
        (let trimmed = normalizeLine (trim line);
             isChannel = looksLikeChannel trimmed;
             isCategory = (isCategoryLine trimmed
                           \<or> (\<not> isChannel \<and> \<not> (case trimmed of [] \<Rightarrow> False | c # r \<Rightarrow> c = 45)))
         in if isCategory then CategoryLine else ChannelLine))"

text \<open>A role line from which \<open>buildRoleFromLine\<close> builds a role (it has a color of six
  hexadecimal digits and a name).\<close>

definition buildsRole :: "unicode \<Rightarrow> flags \<Rightarrow> jsstring \<Rightarrow> bool" where
  "buildsRole U F line = (lineKind line = RoleLine \<and> buildRoleFromLine U F [] line \<noteq> None)"

text \<open>The first line that is not a role line is a channel: the loop meets it with no
  current category and opens the category "General".\<close>

definition opensGeneral :: "jsstring list \<Rightarrow> bool" where
  "opensGeneral ls =
     (case filter (\<lambda>l. lineKind l \<noteq> RoleLine) ls of
        [] \<Rightarrow> False
      | l # rest \<Rightarrow> lineKind l = ChannelLine)"

definition countKind :: "line_kind \<Rightarrow> jsstring list \<Rightarrow> nat" where
  "countKind k ls = length (filter (\<lambda>l. lineKind l = k) ls)"

text \<open>\<open>currentCategory\<close> is \<open>null\<close> as long as there is no category, and one of the
  categories afterwards.\<close>

definition currentValid :: "parse_state \<Rightarrow> bool" where
  "currentValid st =
     (case currentCategory st of
        None \<Rightarrow> ps_categories st = []
      | Some i \<Rightarrow> i < length (ps_categories st))"

section \<open>The snapshot extractor (index.js, fromGuild)\<close>

text \<open>\<open>bitfield.toString()\<close> of a \<open>BigInt\<close>.\<close>

definition bigintToString :: "int \<Rightarrow> jsstring" where
  "bigintToString i = (if i < 0 then 45 # decimal (nat (- i)) else decimal (nat i))"

text \<open>The role template that is pushed for a live role. Its field \<open>position\<close>, which
  nothing reads, is left out.\<close>

definition roleTemplate :: "guild \<Rightarrow> live_role \<Rightarrow> role" where
  "roleTemplate g r =
     \<lparr>refId = lr_id r, role_name = lr_name r, role_color = lr_color r, role_hoist = lr_hoist r,
      role_mentionable = lr_mentionable r,
      role_permissions = Some (bigintToString (lr_permissions r)),
      isEveryone = (lr_id r = g_everyone g)\<rparr>"

definition overwriteTemplate :: "live_overwrite \<Rightarrow> overwrite" where
  "overwriteTemplate ow =
     \<lparr>roleRefId = lo_id ow, allow = Some (bigintToString (lo_allow ow)),
      deny = Some (bigintToString (lo_deny ow))\<rparr>"

definition channelTemplate :: "live_channel \<Rightarrow> channel" where
  "channelTemplate ch =
     \<lparr>ch_name = Some (lc_name ch),
      ch_type = TypeStr (if lc_type ch = 2 then js ''voice'' else js ''text''),
      ch_topic = lc_topic ch, ch_nsfw = lc_nsfw ch, ch_slowmode = lc_rateLimitPerUser ch,
      ch_overwrites =
        Some (map overwriteTemplate (filter (\<lambda>ow. lo_type ow = 0) (lc_permissionOverwrites ch)))\<rparr>"

text \<open>\<open>categoryMap\<close> is a \<open>Map\<close>: its entries in insertion order. \<open>set\<close> on a key
  that is there replaces the value and keeps the place.\<close>

fun mapSet :: "'k \<Rightarrow> 'v \<Rightarrow> ('k \<times> 'v) list \<Rightarrow> ('k \<times> 'v) list" where
  "mapSet k v [] = [(k, v)]"
| "mapSet k v ((k', v') # m) = (if k' = k then (k, v) # m else (k', v') # mapSet k v m)"

text \<open>\<open>ch.parentId\<close> is truthy.\<close>

definition hasParent :: "live_channel \<Rightarrow> bool" where
  "hasParent ch = (case lc_parentId ch of None \<Rightarrow> False | Some pid \<Rightarrow> pid \<noteq> [])"

text \<open>The body of the second \<open>forEach\<close>: the channel is pushed to the array of its parent
  category, if the map has it.\<close>

definition pushToParent ::
  "live_channel \<Rightarrow> (snowflake \<times> category) list \<Rightarrow> (snowflake \<times> category) list" where
  "pushToParent ch categoryMap =
     (case lc_parentId ch of
        None \<Rightarrow> categoryMap
      | Some pid \<Rightarrow>
          (case map_of categoryMap pid of
             None \<Rightarrow> categoryMap
           | Some parent \<Rightarrow>
               mapSet pid (parent\<lparr>cat_channels := Some (channelsOf parent @ [channelTemplate ch])\<rparr>)
                 categoryMap))"

text \<open>\<open>sort((a, b) => a.rawPosition - b.rawPosition)\<close> is a stable sort by raw position,
  as \<open>sort_key\<close> is.\<close>

definition fromGuild :: "guild \<Rightarrow> template" where
  "fromGuild g =
     (let roleTemplates = map (roleTemplate g) (sort_key lr_rawPosition (g_roles g));
          categoryMap0 =
            foldl (\<lambda>m cat. mapSet (lc_id cat) \<lparr>cat_name = Some (lc_name cat), cat_channels = Some []\<rparr> m)
              [] (sort_key lc_rawPosition (filter (\<lambda>ch. lc_type ch = 4) (g_channels g)));
          categoryMap =
            foldl (\<lambda>m ch. pushToParent ch m) categoryMap0
              (sort_key lc_rawPosition (filter hasParent (g_channels g)));
          cats = map snd categoryMap
      in \<lparr>categories = Some cats, roles = Some roleTemplates,
          summary = decimal (length cats) @ js '' categories copied''\<rparr>)"

subsection \<open>What the storing service holds after a run\<close>

text \<open>The role and the channel that the storing service adds when it holds \<open>n\<close> roles
  (respectively channels) and \<open>c\<close> channels (respectively \<open>R\<close> roles).\<close>

definition storedRole :: "permlib \<Rightarrow> nat \<Rightarrow> nat \<Rightarrow> role \<Rightarrow> live_role" where
  "storedRole L c n tpl =
     \<lparr>lr_id = decimal (n + c), lr_name = role_name tpl, lr_color = role_color tpl,
      lr_hoist = role_hoist tpl, lr_mentionable = role_mentionable tpl,
      lr_permissions = permOf L (role_permissions tpl), lr_rawPosition = int n\<rparr>"

fun storedRoles :: "permlib \<Rightarrow> nat \<Rightarrow> nat \<Rightarrow> role list \<Rightarrow> live_role list" where
  "storedRoles L c n [] = []"
| "storedRoles L c n (tpl # rest) = storedRole L c n tpl # storedRoles L c (Suc n) rest"

definition storedChannel :: "nat \<Rightarrow> nat \<Rightarrow> channel_payload \<Rightarrow> live_channel" where
  "storedChannel R n payload =
     \<lparr>lc_id = decimal (R + n), lc_name = p_name payload, lc_type = p_type payload,
      lc_parentId = p_parent payload, lc_topic = p_topic payload,
      lc_nsfw = (case p_nsfw payload of None \<Rightarrow> False | Some b \<Rightarrow> b),
      lc_rateLimitPerUser = (case p_rateLimitPerUser payload of None \<Rightarrow> 0 | Some k \<Rightarrow> k),
      lc_rawPosition = int n, lc_permissionOverwrites = []\<rparr>"

fun storedChannels :: "unicode \<Rightarrow> nat \<Rightarrow> snowflake \<Rightarrow> nat \<Rightarrow> channel list \<Rightarrow> live_channel list" where
  "storedChannels U R parent n [] = []"
| "storedChannels U R parent n (ch # chs) =
     storedChannel R n (channelPayload U parent ch) # storedChannels U R parent (Suc n) chs"

fun storedCategories :: "unicode \<Rightarrow> nat \<Rightarrow> nat \<Rightarrow> category list \<Rightarrow> live_channel list" where
  "storedCategories U R n [] = []"
| "storedCategories U R n (cat # cats) =
     storedChannel R n (categoryPayload cat)
     # storedChannels U R (decimal (R + n)) (Suc n) (channelsOf cat)
     @ storedCategories U R (Suc n + length (channelsOf cat)) cats"

definition stripOverwrites :: "live_channel \<Rightarrow> live_channel" where
  "stripOverwrites ch = ch\<lparr>lc_permissionOverwrites := []\<rparr>"

text \<open>The part of a template that the round trip is about: of each category its name and,
  of each of its channels, the name and the type; of each role its name and color.\<close>

definition channelShape :: "channel \<Rightarrow> jsstring option \<times> chan_type" where
  "channelShape ch = (ch_name ch, ch_type ch)"

definition categoryShape :: "category \<Rightarrow> jsstring option \<times> (jsstring option \<times> chan_type) list" where
  "categoryShape cat = (cat_name cat, map channelShape (channelsOf cat))"

text \<open>The same part of what the engine sends for a template: the names after
  \<open>sanitizeName\<close>, and "voice" or "text" as \<open>isVoiceType\<close> decides.\<close>

definition sentChannelShape :: "unicode \<Rightarrow> channel \<Rightarrow> jsstring option \<times> chan_type" where
  "sentChannelShape U ch =
     (Some (sanitizeName (Some (orDefault (ch_name ch) (js ''channel'')))),
      TypeStr (if isVoiceType U (ch_type ch) then js ''voice'' else js ''text''))"

definition sentCategoryShape ::
  "unicode \<Rightarrow> category \<Rightarrow> jsstring option \<times> (jsstring option \<times> chan_type) list" where
  "sentCategoryShape U cat =
     (Some (sanitizeName (Some (orDefault (cat_name cat) (js ''Category'')))),
      map (sentChannelShape U) (channelsOf cat))"

text \<open>The same part read off a list of live channels: the channels of type 4 in order, each
  with the channels that name it as their parent.\<close>

definition childrenOf :: "snowflake \<Rightarrow> live_channel list \<Rightarrow> live_channel list" where
  "childrenOf q xs = filter (\<lambda>k. hasParent k \<and> lc_parentId k = Some q) xs"

definition liveShape :: "live_channel \<Rightarrow> jsstring option \<times> chan_type" where
  "liveShape k = (Some (lc_name k), TypeStr (if lc_type k = 2 then js ''voice'' else js ''text''))"

definition liveShapes ::
  "live_channel list \<Rightarrow> (jsstring option \<times> (jsstring option \<times> chan_type) list) list" where
  "liveShapes xs =
     map (\<lambda>c. (Some (lc_name c), map liveShape (childrenOf (lc_id c) xs)))
       (filter (\<lambda>ch. lc_type ch = 4) xs)"

definition longCategoryTemplate :: template where
  "longCategoryTemplate =
     \<lparr>categories = Some [\<lparr>cat_name = Some (replicate 95 120), cat_channels = None\<rparr>],
      roles = None, summary = []\<rparr>"

section \<open>Concrete instances\<close>

text \<open>
  The bit positions that discord.js 14 publishes as \<open>PermissionFlagsBits\<close>, for the concrete
  runs below. No general statement depends on them.
\<close>

fun flagShift :: "perm_flag \<Rightarrow> nat" where
  "flagShift KickMembers = 1"
| "flagShift BanMembers = 2"
| "flagShift Administrator = 3"
| "flagShift ManageChannels = 4"
| "flagShift AddReactions = 6"
| "flagShift ViewAuditLog = 7"
| "flagShift PrioritySpeaker = 8"
| "flagShift Stream = 9"
| "flagShift ViewChannel = 10"
| "flagShift SendMessages = 11"
| "flagShift ManageMessages = 13"
| "flagShift EmbedLinks = 14"
| "flagShift AttachFiles = 15"
| "flagShift ReadMessageHistory = 16"
| "flagShift MentionEveryone = 17"
| "flagShift UseExternalEmojis = 18"
| "flagShift Connect = 20"
| "flagShift Speak = 21"
| "flagShift MoveMembers = 24"
| "flagShift UseVAD = 25"
| "flagShift ChangeNickname = 26"
| "flagShift ManageRoles = 28"
| "flagShift ManageWebhooks = 29"
| "flagShift ManageEmojisAndStickers = 30"
| "flagShift UseApplicationCommands = 31"
| "flagShift ManageEvents = 33"
| "flagShift ManageThreads = 34"
| "flagShift UseExternalStickers = 37"
| "flagShift ModerateMembers = 40"

definition PermissionFlagsBits :: flags where
  "PermissionFlagsBits f = push_bit (flagShift f) 1"

text \<open>An instance of the Unicode parameter for inputs that stay within ASCII, where it is
  never consulted.\<close>

definition asciiOnly :: unicode where
  "asciiOnly = \<lparr>lowerUnicode = (\<lambda>s. s), letterOrNumber = (\<lambda>c. False)\<rparr>"

definition exampleChannel :: channel where
  "exampleChannel =
     \<lparr>ch_name = Some (js ''general''), ch_type = TypeStr (js ''text''), ch_topic = None,
      ch_nsfw = False, ch_slowmode = 0, ch_overwrites = None\<rparr>"

section \<open>Properties of the permission mapper\<close>

lemma foldl_or_bit:
  "bit (foldl (\<lambda>prev b. prev OR b) a bs) n \<longleftrightarrow> bit (a::nat) n \<or> (\<exists>b \<in> set bs. bit b n)"
  by (induction bs arbitrary: a) (auto simp: bit_or_iff)

lemma set_mappedFlags:
  "set (mappedFlags U ps) = {f. \<exists>p \<in> set ps. permFlag (normPerm U p) = Some f}"
  by (induction ps) (auto split: option.splits)

lemma bit_permissionsToBitfield:
  "bit (permissionsToBitfield U F ps) n \<longleftrightarrow>
     (\<exists>p \<in> set ps. \<exists>f. permFlag (normPerm U p) = Some f \<and> bit (F f) n)"
  by (auto simp: permissionsToBitfield_def resolveFlags_def foldl_or_bit set_mappedFlags)

lemma permissionsToBitfield_set_cong:
  "set ps = set qs \<Longrightarrow> permissionsToBitfield U F ps = permissionsToBitfield U F qs"
  by (rule bit_eqI) (simp add: bit_permissionsToBitfield)

lemma countChannels_eq: "countChannels k cats = k + totalChannels cats"
  by (induction cats arbitrary: k) (auto simp: totalChannels_def)


lemma parenEnd_subset: "parenEnd cs = Some r \<Longrightarrow> set r \<subseteq> set cs"
  by (induction cs) (auto split: if_splits)

lemma set_stripParens: "set (stripParens s) \<subseteq> set s"
proof (induction s rule: stripParens.induct)
  case 1
  then show ?case by simp
next
  case (2 c cs)
  show ?case
  proof (cases "c = 40")
    case False
    with 2 show ?thesis by auto
  next
    case True
    show ?thesis
    proof (cases "parenEnd cs")
      case None
      with True 2 show ?thesis by auto
    next
      case (Some r)
      with True 2 have "set (stripParens r) \<subseteq> set r" by simp
      with parenEnd_subset [OF Some] True Some show ?thesis by auto
    qed
  qed
qed

lemma set_trim: "set (trim s) \<subseteq> set s"
proof -
  have "set (trimEnd s) \<subseteq> set s"
    unfolding trimEnd_def using set_dropWhileD [of _ isWhiteSpace "rev s"] by auto
  moreover have "set (trimStart t) \<subseteq> set t" for t
    unfolding trimStart_def using set_dropWhileD [of _ isWhiteSpace t] by auto
  ultimately show ?thesis
    unfolding trim_def by blast
qed

lemma stripParens_none: "40 \<notin> set s \<Longrightarrow> stripParens s = s"
  by (induction s) auto

lemma parenEnd_closing:
  "41 \<notin> set b \<Longrightarrow> \<forall>c \<in> set b. \<not> isLineTerminator c \<Longrightarrow> parenEnd (b @ 41 # c) = Some c"
  by (induction b) auto

lemma stripParens_group:
  "40 \<notin> set a \<Longrightarrow> 41 \<notin> set b \<Longrightarrow> \<forall>c \<in> set b. \<not> isLineTerminator c \<Longrightarrow>
   stripParens (a @ 40 # b @ 41 # c) = a @ stripParens c"
  by (induction a) (auto simp: parenEnd_closing)

lemma parenEnd_unclosed: "41 \<notin> set cs \<Longrightarrow> parenEnd cs = None"
  by (induction cs) auto

lemma stripParens_unclosed: "41 \<notin> set s \<Longrightarrow> stripParens s = s"
  by (induction s) (auto simp: parenEnd_unclosed)

lemma normPerm_ascii:
  assumes "\<forall>c \<in> set p. c < 128"
  shows "normPerm U p = map lowerAscii (trim (stripParens p))"
proof -
  have "set (trim (stripParens p)) \<subseteq> set p"
    using set_trim [of "stripParens p"] set_stripParens [of p] by blast
  with assms have "list_all (\<lambda>c. c < 128) (trim (stripParens p))"
    by (auto simp: list_all_iff)
  then show ?thesis
    by (simp add: normPerm_def toLowerCase_def)
qed

lemma js_eq_iff: "js a = js b \<longleftrightarrow> a = b"
proof -
  have "inj (of_char :: char \<Rightarrow> nat)"
    by (rule injI) simp
  then show ?thesis
    by (simp add: js_def inj_map_eq_map)
qed

lemma permFlag_of_synonym: "norm \<in> set (synonyms f) \<Longrightarrow> permFlag norm = Some f"
  by (cases f) (auto simp: permFlag_def js_eq_iff)

lemma synonym_of_permFlag: "permFlag norm = Some f \<Longrightarrow> norm \<in> set (synonyms f)"
  unfolding permFlag_def by (auto split: if_splits)

lemma permFlag_synonyms: "permFlag norm = Some f \<longleftrightarrow> norm \<in> set (synonyms f)"
  using permFlag_of_synonym synonym_of_permFlag by blast



lemma normPerm_mixed:
  "normPerm U (js ''ADMINISTRATOR'') = js ''administrator''"
  "normPerm U (js ''  Manage Server '') = js ''manage server''"
  "normPerm U (js ''Timeout Members (mods)'') = js ''timeout members''"
  "normPerm U (js ''Bogus'') = js ''bogus''"
  by (simp_all add: normPerm_def toLowerCase_def trim_def trimStart_def trimEnd_def
      isWhiteSpace_def isLineTerminator_def js_def lowerAscii_def isUpperAscii_def)

section \<open>The calls of the engine\<close>

lemma guild_channels_create_log:
  "guild_channels_create P payload w = (r, w') \<Longrightarrow> snd w' = snd w @ [ChannelsCreate payload]"
  by (auto simp: guild_channels_create_def split: prod.splits)

lemma guild_roles_create_log:
  "guild_roles_create P payload w = (r, w') \<Longrightarrow> snd w' = snd w @ [RolesCreate payload]"
  by (auto simp: guild_roles_create_def split: prod.splits sum.splits)

lemma permissionOverwrites_create_log:
  "permissionOverwrites_create P channelId roleId a d w = (r, w') \<Longrightarrow>
     snd w' = snd w @ [OverwritesCreate channelId roleId a d]"
  by (auto simp: permissionOverwrites_create_def split: prod.splits sum.splits)

lemma createChannelSafe_log:
  assumes "createChannelSafe P payload w = (r, w')"
  shows "snd w' = snd w @ [ChannelsCreate payload]
       \<or> snd w' = snd w @ [ChannelsCreate payload, ChannelsCreate (payload\<lparr>p_topic := None\<rparr>)]"
proof -
  obtain r1 w1 where Pair: "guild_channels_create P payload w = (r1, w1)"
    by (cases "guild_channels_create P payload w")
  note first = guild_channels_create_log [OF Pair]
  show ?thesis
  proof (cases r1)
    case (Inr cid)
    with assms Pair first show ?thesis
      by (simp add: createChannelSafe_def)
  next
    case (Inl err)
    show ?thesis
    proof (cases "topicInvalid err \<and> hasTopic payload")
      case False
      with assms Pair Inl first show ?thesis
        by (auto simp: createChannelSafe_def)
    next
      case True
      obtain r2 w2 where second: "guild_channels_create P (payload\<lparr>p_topic := None\<rparr>) w1 = (r2, w2)"
        by (cases "guild_channels_create P (payload\<lparr>p_topic := None\<rparr>) w1")
      from assms Pair Inl True second have "w' = w2"
        by (auto simp: createChannelSafe_def split: sum.splits)
      with guild_channels_create_log [OF second] first show ?thesis
        by simp
    qed
  qed
qed



lemma applyOverwrites_log:
  "applyOverwrites P L m channelId ows w = (r, w') \<Longrightarrow>
   \<exists>new. snd w' = snd w @ new \<and> (\<forall>c \<in> set new. isOverwritesCreate c)"
proof (induction ows arbitrary: w)
  case Nil
  then show ?case by simp
next
  case (Cons ow ows)
  show ?case
  proof (cases "resolvable m ow")
    case False
    then have "applyOverwrites P L m channelId (ow # ows) w = applyOverwrites P L m channelId ows w"
      by (auto simp: resolvable_def split: option.splits)
    with Cons show ?thesis by simp
  next
    case True
    then obtain rid where rid: "m (roleRefId ow) = Some rid" "rid \<noteq> []"
      by (auto simp: resolvable_def split: option.splits)
    show ?thesis
    proof (cases "normalizePermValue L (allow ow)")
      case (Inl e)
      with Cons.prems rid show ?thesis by auto
    next
      case a: (Inr a)
      show ?thesis
      proof (cases "normalizePermValue L (deny ow)")
        case (Inl e)
        with Cons.prems rid a show ?thesis by auto
      next
        case d: (Inr d)
        obtain r1 w1 where c: "permissionOverwrites_create P channelId rid a d w = (r1, w1)"
          by (cases "permissionOverwrites_create P channelId rid a d w")
        note one = permissionOverwrites_create_log [OF c]
        show ?thesis
        proof (cases r1)
          case (Inl e)
          with Cons.prems rid a d c have "w' = w1" by simp
          with one show ?thesis by simp
        next
          case (Inr u)
          with Cons.prems rid a d c have "applyOverwrites P L m channelId ows w1 = (r, w')"
            by simp
          from Cons.IH [OF this] obtain new where
            "snd w' = snd w1 @ new" "\<forall>c \<in> set new. isOverwritesCreate c" by blast
          with one have "snd w' = snd w @ (OverwritesCreate channelId rid a d # new)
              \<and> (\<forall>c \<in> set (OverwritesCreate channelId rid a d # new). isOverwritesCreate c)"
            by simp
          then show ?thesis by blast
        qed
      qed
    qed
  qed
qed

lemma buildChannel_log:
  assumes "buildChannel P L U m parent ch w = (r, w')"
  shows "\<exists>new. snd w' = snd w @ new \<and> (\<forall>c \<in> set new. isOverwritesCreate c \<or> channelCall U ch c)"
proof -
  obtain r1 w1 where Pair: "createChannelSafe P (channelPayload U parent ch) w = (r1, w1)"
    by (cases "createChannelSafe P (channelPayload U parent ch) w")
  have "channelCall U ch (ChannelsCreate (channelPayload U parent ch))"
    and "channelCall U ch (ChannelsCreate ((channelPayload U parent ch)\<lparr>p_topic := None\<rparr>))"
    unfolding channelCall_def by blast+
  with createChannelSafe_log [OF Pair] have
    "\<exists>first. snd w1 = snd w @ first \<and> (\<forall>c \<in> set first. channelCall U ch c)"
    by (metis empty_iff empty_set set_ConsD)
  then obtain first where
    first: "snd w1 = snd w @ first" "\<forall>c \<in> set first. channelCall U ch c"
    by blast
  show ?thesis
  proof (cases r1)
    case (Inl e)
    with assms Pair have "w' = w1" by (simp add: buildChannel_def)
    with first show ?thesis by blast
  next
    case (Inr channelId)
    show ?thesis
    proof (cases "ch_overwrites ch")
      case None
      with assms Pair Inr have "w' = w1" by (simp add: buildChannel_def)
      with first show ?thesis by blast
    next
      case (Some ows)
      with assms Pair Inr have "applyOverwrites P L m channelId ows w1 = (r, w')"
        by (simp add: buildChannel_def)
      from applyOverwrites_log [OF this] obtain new where
        "snd w' = snd w1 @ new" "\<forall>c \<in> set new. isOverwritesCreate c" by blast
      with first have "snd w' = snd w @ (first @ new)
          \<and> (\<forall>c \<in> set (first @ new). isOverwritesCreate c \<or> channelCall U ch c)"
        by auto
      then show ?thesis by blast
    qed
  qed
qed

lemma buildChannels_log:
  "buildChannels P L U m parent chs w = (r, w') \<Longrightarrow>
   \<exists>new. snd w' = snd w @ new
     \<and> (\<forall>c \<in> set new. isOverwritesCreate c \<or> (\<exists>ch \<in> set chs. channelCall U ch c))"
proof (induction chs arbitrary: w)
  case Nil
  then show ?case by simp
next
  case (Cons ch chs)
  obtain r1 w1 where one: "buildChannel P L U m parent ch w = (r1, w1)"
    by (cases "buildChannel P L U m parent ch w")
  from buildChannel_log [OF one] obtain first where
    first: "snd w1 = snd w @ first" "\<forall>c \<in> set first. isOverwritesCreate c \<or> channelCall U ch c"
    by blast
  show ?case
  proof (cases r1)
    case (Inl e)
    with Cons.prems one have "w' = w1" by simp
    with first have "snd w' = snd w @ first
        \<and> (\<forall>c \<in> set first. isOverwritesCreate c \<or> (\<exists>x \<in> set (ch # chs). channelCall U x c))"
      by auto
    then show ?thesis by blast
  next
    case (Inr u)
    with Cons.prems one have "buildChannels P L U m parent chs w1 = (r, w')" by simp
    from Cons.IH [OF this] obtain new where
      "snd w' = snd w1 @ new"
      "\<forall>c \<in> set new. isOverwritesCreate c \<or> (\<exists>x \<in> set chs. channelCall U x c)" by blast
    with first have "snd w' = snd w @ (first @ new)
        \<and> (\<forall>c \<in> set (first @ new). isOverwritesCreate c \<or> (\<exists>x \<in> set (ch # chs). channelCall U x c))"
      by auto
    then show ?thesis by blast
  qed
qed

lemma structureCall_mono:
  "structureCall U cats c \<Longrightarrow> structureCall U (cat # cats) c"
  by (auto simp: structureCall_def)

lemma buildCategories_log:
  "buildCategories P L U m cats w = (r, w') \<Longrightarrow>
   \<exists>new. snd w' = snd w @ new \<and> (\<forall>c \<in> set new. structureCall U cats c)"
proof (induction cats arbitrary: w)
  case Nil
  then show ?case by simp
next
  case (Cons cat cats)
  obtain r1 w1 where one: "guild_channels_create P (categoryPayload cat) w = (r1, w1)"
    by (cases "guild_channels_create P (categoryPayload cat) w")
  note first = guild_channels_create_log [OF one]
  have catcall: "structureCall U (cat # cats) (ChannelsCreate (categoryPayload cat))"
    by (simp add: structureCall_def)
  show ?case
  proof (cases r1)
    case (Inl err)
    with Cons.prems one have "w' = w1" by simp
    with first catcall have "snd w' = snd w @ [ChannelsCreate (categoryPayload cat)]
        \<and> (\<forall>c \<in> set [ChannelsCreate (categoryPayload cat)]. structureCall U (cat # cats) c)"
      by simp
    then show ?thesis by blast
  next
    case (Inr categoryId)
    obtain r2 w2 where two: "buildChannels P L U m categoryId (channelsOf cat) w1 = (r2, w2)"
      by (cases "buildChannels P L U m categoryId (channelsOf cat) w1")
    from buildChannels_log [OF two] obtain mid where
      mid: "snd w2 = snd w1 @ mid"
        "\<forall>c \<in> set mid. isOverwritesCreate c \<or> (\<exists>ch \<in> set (channelsOf cat). channelCall U ch c)"
      by blast
    have midcall: "\<forall>c \<in> set mid. structureCall U (cat # cats) c"
      using mid(2) by (auto simp: structureCall_def)
    show ?thesis
    proof (cases r2)
      case (Inl e)
      with Cons.prems one Inr two have "w' = w2" by (simp add: channelsOf_def)
      with first mid(1) catcall midcall
      have "snd w' = snd w @ (ChannelsCreate (categoryPayload cat) # mid)
          \<and> (\<forall>c \<in> set (ChannelsCreate (categoryPayload cat) # mid). structureCall U (cat # cats) c)"
        by simp
      then show ?thesis by blast
    next
      case (Inr u)
      with Cons.prems one \<open>r1 = Inr categoryId\<close> two
      have "buildCategories P L U m cats w2 = (r, w')" by (simp add: channelsOf_def)
      from Cons.IH [OF this] obtain new where
        new: "snd w' = snd w2 @ new" "\<forall>c \<in> set new. structureCall U cats c" by blast
      from new(2) have "\<forall>c \<in> set new. structureCall U (cat # cats) c"
        by (blast intro: structureCall_mono)
      with first mid(1) new(1) catcall midcall
      have "snd w' = snd w @ (ChannelsCreate (categoryPayload cat) # mid @ new)
          \<and> (\<forall>c \<in> set (ChannelsCreate (categoryPayload cat) # mid @ new). structureCall U (cat # cats) c)"
        by auto
      then show ?thesis by blast
    qed
  qed
qed

lemma ensureRolesLoop_log:
  "ensureRolesLoop P L rs m w = (r, w') \<Longrightarrow>
   \<exists>k. snd w' = snd w @ map (roleCall L) (take k (creatable P rs))
     \<and> ((\<exists>m'. r = Inr m') \<longrightarrow> k = length (creatable P rs))"
proof (induction rs arbitrary: m w)
  case Nil
  then show ?case by (simp add: creatable_def)
next
  case (Cons tpl rest)
  show ?case
  proof (cases "bindsToBase P tpl")
    case True
    with Cons.prems
    have "ensureRolesLoop P L rest (m(refId tpl \<mapsto> everyoneId P)) w = (r, w')"
      by (simp add: bindsToBase_def)
    from Cons.IH [OF this] True show ?thesis
      by (simp add: creatable_def)
  next
    case False
    then have cr: "creatable P (tpl # rest) = tpl # creatable P rest"
      by (simp add: creatable_def)
    show ?thesis
    proof (cases "normalizePermValue L (role_permissions tpl)")
      case (Inl e)
      with Cons.prems False have "w' = w" "r = Inl e"
        by (auto simp: bindsToBase_def)
      then have "snd w' = snd w @ map (roleCall L) (take 0 (creatable P (tpl # rest)))
          \<and> ((\<exists>m'. r = Inr m') \<longrightarrow> 0 = length (creatable P (tpl # rest)))"
        by simp
      then show ?thesis by blast
    next
      case (Inr perms)
      then have call: "roleCall L tpl = RolesCreate (rolePayload tpl perms)"
        by (simp add: roleCall_def permOf_def)
      obtain r1 w1 where one: "guild_roles_create P (rolePayload tpl perms) w = (r1, w1)"
        by (cases "guild_roles_create P (rolePayload tpl perms) w")
      note first = guild_roles_create_log [OF one]
      show ?thesis
      proof (cases r1)
        case (Inl e)
        with Cons.prems False Inr one have "w' = w1" "r = Inl e"
          by (auto simp: bindsToBase_def)
        with first call cr
        have "snd w' = snd w @ map (roleCall L) (take 1 (creatable P (tpl # rest)))
            \<and> ((\<exists>m'. r = Inr m') \<longrightarrow> 1 = length (creatable P (tpl # rest)))"
          by simp
        then show ?thesis by blast
      next
        case rid: (Inr rid)
        with Cons.prems False Inr one
        have "ensureRolesLoop P L rest (m(refId tpl \<mapsto> rid)) w1 = (r, w')"
          by (auto simp: bindsToBase_def)
        from Cons.IH [OF this] obtain k where
          k: "snd w' = snd w1 @ map (roleCall L) (take k (creatable P rest))"
            "(\<exists>m'. r = Inr m') \<longrightarrow> k = length (creatable P rest)" by blast
        with first call cr
        have "snd w' = snd w @ map (roleCall L) (take (Suc k) (creatable P (tpl # rest)))
            \<and> ((\<exists>m'. r = Inr m') \<longrightarrow> Suc k = length (creatable P (tpl # rest)))"
          by simp
        then show ?thesis by blast
      qed
    qed
  qed
qed


lemma buildServerFromTemplate_log:
  assumes "buildServerFromTemplate P L U t w = (r, w')"
  shows "\<exists>k rest. snd w' = snd w @ map (roleCall L) (take k (creatable P (rolesOf t))) @ rest
           \<and> (\<forall>c \<in> set rest. structureCall U (categoriesOfTemplate t) c)
           \<and> (r = Inr () \<or> rest \<noteq> [] \<longrightarrow> k = length (creatable P (rolesOf t)))"
proof -
  obtain r1 w1 where one: "ensureRolesLoop P L (rolesOf t) (Map.empty(js ''everyone'' \<mapsto> everyoneId P)) w = (r1, w1)"
    by (cases "ensureRolesLoop P L (rolesOf t) (Map.empty(js ''everyone'' \<mapsto> everyoneId P)) w")
  from ensureRolesLoop_log [OF one] obtain k where
    k: "snd w1 = snd w @ map (roleCall L) (take k (creatable P (rolesOf t)))"
       "(\<exists>m'. r1 = Inr m') \<longrightarrow> k = length (creatable P (rolesOf t))" by blast
  from one have ens: "ensureRoles P L (case roles t of None \<Rightarrow> [] | Some rs \<Rightarrow> rs) w = (r1, w1)"
    by (simp add: ensureRoles_def rolesOf_def)
  show ?thesis
  proof (cases r1)
    case (Inl e)
    with assms ens have "w' = w1" "r = Inl e"
      by (simp_all add: buildServerFromTemplate_def)
    with k(1) have "snd w' = snd w @ map (roleCall L) (take k (creatable P (rolesOf t))) @ []
           \<and> (\<forall>c \<in> set []. structureCall U (categoriesOfTemplate t) c)
           \<and> (r = Inr () \<or> [] \<noteq> ([] :: call list) \<longrightarrow> k = length (creatable P (rolesOf t)))"
      by simp
    then show ?thesis by blast
  next
    case (Inr roleIdMap)
    with k(2) have full: "k = length (creatable P (rolesOf t))" by simp
    show ?thesis
    proof (cases "categories t")
      case None
      with assms ens Inr have "w' = w1"
        by (simp add: buildServerFromTemplate_def)
      with k(1) full
      have "snd w' = snd w @ map (roleCall L) (take k (creatable P (rolesOf t))) @ []
           \<and> (\<forall>c \<in> set []. structureCall U (categoriesOfTemplate t) c)
           \<and> (r = Inr () \<or> [] \<noteq> ([] :: call list) \<longrightarrow> k = length (creatable P (rolesOf t)))"
        by simp
      then show ?thesis by blast
    next
      case (Some cats)
      with assms ens Inr have "buildCategories P L U roleIdMap cats w1 = (r, w')"
        by (simp add: buildServerFromTemplate_def)
      from buildCategories_log [OF this] obtain rest where
        "snd w' = snd w1 @ rest" "\<forall>c \<in> set rest. structureCall U cats c" by blast
      with k(1) full Some
      have "snd w' = snd w @ map (roleCall L) (take k (creatable P (rolesOf t))) @ rest
           \<and> (\<forall>c \<in> set rest. structureCall U (categoriesOfTemplate t) c)
           \<and> (r = Inr () \<or> rest \<noteq> [] \<longrightarrow> k = length (creatable P (rolesOf t)))"
        by (simp add: categoriesOfTemplate_def)
      then show ?thesis by blast
    qed
  qed
qed


lemma structureCall_payload:
  "structureCall U cats (ChannelsCreate p) \<Longrightarrow>
     (\<exists>cat \<in> set cats. p = categoryPayload cat
        \<or> (\<exists>ch \<in> set (channelsOf cat). \<exists>parent.
              p = channelPayload U parent ch \<or> p = (channelPayload U parent ch)\<lparr>p_topic := None\<rparr>))"
  by (auto simp: structureCall_def channelCall_def)




section \<open>Properties of the parser\<close>

lemma sumChannels_eq: "sumChannels k cats = k + totalChannels cats"
  by (induction cats arbitrary: k) (auto simp: totalChannels_def channelsOf_def split: option.splits)

lemma baseOnly_buildChannelFromLine: "baseOnly (buildChannelFromLine U F line)"
  by (simp add: buildChannelFromLine_def baseOnly_def Let_def)

lemma wellParsed_pushCategory:
  "wellParsed (ps_categories st) \<Longrightarrow> wellParsed (ps_categories (pushCategory name st))"
  by (auto simp: wellParsed_def pushCategory_def channelsOf_def)

lemma wellParsed_pushChannel:
  assumes "wellParsed (ps_categories st)" and "baseOnly ch"
  shows "wellParsed (ps_categories (pushChannel ch st))"
proof (cases "currentCategory st")
  case None
  with assms show ?thesis by (simp add: pushChannel_def)
next
  case (Some i)
  let ?cats = "ps_categories st"
  let ?new = "(?cats ! i)\<lparr>cat_channels := Some (channelsOf (?cats ! i) @ [ch])\<rparr>"
  have upd: "ps_categories (pushChannel ch st) = ?cats[i := ?new]"
    using Some by (simp add: pushChannel_def)
  show ?thesis
  proof (cases "i < length ?cats")
    case False
    then have "?cats[i := ?new] = ?cats"
      by (simp add: list_update_beyond not_less)
    with upd assms show ?thesis by simp
  next
    case True
    then have "?cats ! i \<in> set ?cats" by simp
    with assms have old: "\<forall>x \<in> set (channelsOf (?cats ! i)). baseOnly x"
      by (simp add: wellParsed_def)
    have "cat_channels ?new \<noteq> None \<and> (\<forall>x \<in> set (channelsOf ?new). baseOnly x)"
      using old assms(2) by (auto simp: channelsOf_def)
    moreover have "set (?cats[i := ?new]) \<subseteq> insert ?new (set ?cats)"
      by (rule set_update_subset_insert)
    ultimately show ?thesis
      using assms(1) unfolding upd wellParsed_def by blast
  qed
qed

lemma wellParsed_parseLine:
  "wellParsed (ps_categories st) \<Longrightarrow> wellParsed (ps_categories (parseLine U F R line st))"
  by (auto simp: parseLine_def Let_def baseOnly_buildChannelFromLine
      intro!: wellParsed_pushCategory wellParsed_pushChannel split: option.splits)

lemma wellParsed_parseLines:
  "wellParsed (ps_categories st) \<Longrightarrow> wellParsed (ps_categories (parseLines U F R ls st))"
  by (induction ls arbitrary: st) (auto intro: wellParsed_parseLine)

lemma wellParsed_parseTextStructure:
  "categories (parseTextStructure U F R raw) = Some cats \<Longrightarrow> wellParsed cats"
  using wellParsed_parseLines
    [of "\<lparr>ps_categories = [], ps_roles = [], currentCategory = None\<rparr>" U F R "inputLines raw"]
  by (auto simp: parseTextStructure_def Let_def wellParsed_def)

subsection \<open>The parser does not throw when the table defines every flag\<close>

lemma resolveAll_total: "resolveAll (\<lambda>f. Some (F f)) fs = Inr (map F fs)"
  by (induction fs) simp_all

lemma permissionsToBitfield_exn_total:
  "permissionsToBitfield_exn U (\<lambda>f. Some (F f)) perms = Inr (permissionsToBitfield U F perms)"
  by (simp add: permissionsToBitfield_exn_def newPermissionsBitField_def resolveAll_total
      permissionsToBitfield_def resolveFlags_def)

lemma buildRoleFromLine_exn_total:
  "buildRoleFromLine_exn U (\<lambda>f. Some (F f)) rid line = Inr (buildRoleFromLine U F rid line)"
  by (simp add: buildRoleFromLine_exn_def buildRoleFromLine_def permissionsToBitfield_exn_total
      Let_def split: option.splits prod.splits)

lemma buildChannelFromLine_exn_total:
  "buildChannelFromLine_exn U (\<lambda>f. Some (F f)) line = Inr (buildChannelFromLine U F line)"
  by (simp add: buildChannelFromLine_exn_def buildChannelFromLine_def
      permissionsToBitfield_exn_total Let_def)

lemma parseLine_exn_total:
  "parseLine_exn U (\<lambda>f. Some (F f)) R line st = Inr (parseLine U F R line st)"
  by (simp add: parseLine_exn_def parseLine_def buildRoleFromLine_exn_total
      buildChannelFromLine_exn_total Let_def split: option.splits)

lemma parseLines_exn_total:
  "parseLines_exn U (\<lambda>f. Some (F f)) R ls st = Inr (parseLines U F R ls st)"
  by (induction ls arbitrary: st) (simp_all add: parseLine_exn_total)

lemma parseTextStructure_exn_total:
  "parseTextStructure_exn U (\<lambda>f. Some (F f)) R raw = Inr (parseTextStructure U F R raw)"
  by (simp add: parseTextStructure_exn_def parseTextStructure_def parseLines_exn_total Let_def)

lemma parseTextStructure_exn_returns:
  assumes "\<forall>f. T f \<noteq> None"
  shows "parseTextStructure_exn U T R raw = Inr (parseTextStructure U (\<lambda>f. the (T f)) R raw)"
proof -
  from assms have "T = (\<lambda>f. Some (the (T f)))"
    by (intro ext) simp
  then have "parseTextStructure_exn U T R raw
               = parseTextStructure_exn U (\<lambda>f. Some (the (T f))) R raw"
    by simp
  then show ?thesis
    by (simp only: parseTextStructure_exn_total)
qed

subsection \<open>What the loop does with a line of each kind\<close>

lemma buildRoleFromLine_None_refId:
  "(buildRoleFromLine U F rid line = None) = (buildRoleFromLine U F rid' line = None)"
  by (simp add: buildRoleFromLine_def Let_def split: option.splits prod.splits)

lemma parseLine_RoleLine:
  assumes "lineKind line = RoleLine"
  shows "ps_categories (parseLine U F R line st) = ps_categories st"
    and "currentCategory (parseLine U F R line st) = currentCategory st"
    and "length (ps_roles (parseLine U F R line st))
           = length (ps_roles st) + (if buildsRole U F line then 1 else 0)"
proof -
  from assms have role: "isRoleLine line"
    by (simp add: lineKind_def Let_def split: if_splits)
  show "ps_categories (parseLine U F R line st) = ps_categories st"
    and "currentCategory (parseLine U F R line st) = currentCategory st"
    using role by (simp_all add: parseLine_def split: option.splits)
  show "length (ps_roles (parseLine U F R line st))
           = length (ps_roles st) + (if buildsRole U F line then 1 else 0)"
    using role assms buildRoleFromLine_None_refId [of U F "R (length (ps_roles st))" line "[]"]
    by (auto simp: parseLine_def buildsRole_def split: option.splits)
qed

lemma parseLine_CategoryLine:
  "lineKind line = CategoryLine \<Longrightarrow>
   parseLine U F R line st = pushCategory (cleanCategoryName U (normalizeLine (trim line))) st"
  by (auto simp: lineKind_def parseLine_def Let_def split: if_splits)

lemma parseLine_ChannelLine:
  "lineKind line = ChannelLine \<Longrightarrow>
   parseLine U F R line st =
     pushChannel (buildChannelFromLine U F (normalizeLine (trim line)))
       (case currentCategory st of None \<Rightarrow> pushCategory (js ''General'') st | Some i \<Rightarrow> st)"
  by (auto simp: lineKind_def parseLine_def Let_def split: if_splits)

lemma totalChannels_append:
  "totalChannels (cats @ [\<lparr>cat_name = n, cat_channels = Some []\<rparr>]) = totalChannels cats"
  by (simp add: totalChannels_def)

lemma totalChannels_push:
  assumes "i < length cats"
  shows "totalChannels (cats[i := (cats ! i)\<lparr>cat_channels := Some (channelsOf (cats ! i) @ [ch])\<rparr>])
           = Suc (totalChannels cats)"
proof -
  let ?f = "\<lambda>cat. case cat_channels cat of Some chs \<Rightarrow> length chs | None \<Rightarrow> 0"
  let ?new = "(cats ! i)\<lparr>cat_channels := Some (channelsOf (cats ! i) @ [ch])\<rparr>"
  have new: "?f ?new = Suc (?f (cats ! i))"
    by (simp add: channelsOf_def split: option.splits)
  have "map ?f (cats[i := ?new]) = (map ?f cats)[i := ?f ?new]"
    by (rule map_update)
  then have "totalChannels (cats[i := ?new]) = sum_list ((map ?f cats)[i := Suc (?f (cats ! i))])"
    by (simp only: totalChannels_def new)
  also have "\<dots> = sum_list (map ?f cats) + Suc (?f (cats ! i)) - (map ?f cats) ! i"
    using assms by (simp add: sum_list_update)
  also have "\<dots> = Suc (sum_list (map ?f cats))"
    using assms by simp
  finally show ?thesis
    by (simp add: totalChannels_def)
qed

lemma step_RoleLine:
  assumes "lineKind line = RoleLine" and "currentValid st"
  shows "currentValid (parseLine U F R line st)"
  using assms parseLine_RoleLine(1,2) [OF assms(1), of U F R st]
  by (simp add: currentValid_def split: option.splits)

lemma step_CategoryLine:
  assumes "lineKind line = CategoryLine"
  shows "currentValid (parseLine U F R line st)"
    and "length (ps_categories (parseLine U F R line st)) = Suc (length (ps_categories st))"
    and "totalChannels (ps_categories (parseLine U F R line st)) = totalChannels (ps_categories st)"
    and "ps_roles (parseLine U F R line st) = ps_roles st"
  unfolding parseLine_CategoryLine [OF assms]
  by (simp_all add: pushCategory_def currentValid_def totalChannels_append split: option.splits)

lemma step_ChannelLine:
  assumes "lineKind line = ChannelLine" and "currentValid st"
  shows "currentValid (parseLine U F R line st)"
    and "length (ps_categories (parseLine U F R line st))
           = (if ps_categories st = [] then 1 else length (ps_categories st))"
    and "totalChannels (ps_categories (parseLine U F R line st))
           = Suc (totalChannels (ps_categories st))"
    and "ps_roles (parseLine U F R line st) = ps_roles st"
proof -
  let ?ch = "buildChannelFromLine U F (normalizeLine (trim line))"
  note step = parseLine_ChannelLine [OF assms(1), of U F R st]
  show "currentValid (parseLine U F R line st)"
    and "length (ps_categories (parseLine U F R line st))
           = (if ps_categories st = [] then 1 else length (ps_categories st))"
    and "ps_roles (parseLine U F R line st) = ps_roles st"
    using assms(2) unfolding step
    by (auto simp: currentValid_def pushChannel_def pushCategory_def split: option.splits)
  show "totalChannels (ps_categories (parseLine U F R line st))
           = Suc (totalChannels (ps_categories st))"
  proof (cases "currentCategory st")
    case None
    with assms(2) have "ps_categories st = []"
      by (simp add: currentValid_def)
    with None show ?thesis
      unfolding step
      by (simp add: pushChannel_def pushCategory_def totalChannels_def channelsOf_def)
  next
    case (Some i)
    with assms(2) have "i < length (ps_categories st)"
      by (simp add: currentValid_def)
    from totalChannels_push [OF this, of ?ch] Some show ?thesis
      unfolding step by (simp add: pushChannel_def)
  qed
qed

lemma opensGeneral_Cons:
  "opensGeneral (l # ls) =
     (case lineKind l of RoleLine \<Rightarrow> opensGeneral ls | CategoryLine \<Rightarrow> False | ChannelLine \<Rightarrow> True)"
  by (cases "lineKind l") (simp_all add: opensGeneral_def)

lemma countKind_Cons:
  "countKind k (l # ls) = (if lineKind l = k then Suc (countKind k ls) else countKind k ls)"
  by (simp add: countKind_def)

lemma parseLines_counts:
  "currentValid st \<Longrightarrow>
   length (ps_categories (parseLines U F R ls st))
     = length (ps_categories st) + countKind CategoryLine ls
       + (if ps_categories st = [] \<and> opensGeneral ls then 1 else 0)
   \<and> totalChannels (ps_categories (parseLines U F R ls st))
     = totalChannels (ps_categories st) + countKind ChannelLine ls
   \<and> length (ps_roles (parseLines U F R ls st))
     = length (ps_roles st) + length (filter (buildsRole U F) ls)"
proof (induction ls arbitrary: st)
  case Nil
  then show ?case by (simp add: countKind_def opensGeneral_def)
next
  case (Cons l ls)
  let ?st = "parseLine U F R l st"
  show ?case
  proof (cases "lineKind l")
    case RoleLine
    note eff = parseLine_RoleLine [OF RoleLine, of U F R st]
    have "currentValid ?st"
      using RoleLine Cons.prems by (rule step_RoleLine)
    from Cons.IH [OF this] eff RoleLine show ?thesis
      by (simp add: countKind_Cons opensGeneral_Cons buildsRole_def)
  next
    case CategoryLine
    note eff = step_CategoryLine [OF CategoryLine, of U F R st]
    have ne: "ps_categories ?st \<noteq> []"
      using eff(2) by auto
    have nb: "\<not> buildsRole U F l"
      using CategoryLine by (simp add: buildsRole_def)
    from Cons.IH [OF eff(1)] eff(2,3,4) ne nb CategoryLine show ?thesis
      by (simp add: countKind_Cons opensGeneral_Cons)
  next
    case ChannelLine
    note eff = step_ChannelLine [OF ChannelLine Cons.prems, of U F R]
    have ne: "ps_categories ?st \<noteq> []"
      using eff(2) by (auto split: if_splits)
    have nb: "\<not> buildsRole U F l"
      using ChannelLine by (simp add: buildsRole_def)
    from Cons.IH [OF eff(1)] eff(2,3,4) ne nb ChannelLine show ?thesis
      by (simp add: countKind_Cons opensGeneral_Cons)
  qed
qed

lemma parseTextStructure_counts:
  "categories (parseTextStructure U F R raw) = Some cats \<Longrightarrow>
   roles (parseTextStructure U F R raw) = Some rs \<Longrightarrow>
   length cats = countKind CategoryLine (inputLines raw)
                 + (if opensGeneral (inputLines raw) then 1 else 0)
   \<and> totalChannels cats = countKind ChannelLine (inputLines raw)
   \<and> length rs = length (filter (buildsRole U F) (inputLines raw))"
  using parseLines_counts
    [of "\<lparr>ps_categories = [], ps_roles = [], currentCategory = None\<rparr>" U F R "inputLines raw"]
  by (auto simp: parseTextStructure_def Let_def currentValid_def totalChannels_def)

subsection \<open>The two example inputs, step by step\<close>

lemmas str_defs = trim_def trimStart_def trimEnd_def isWhiteSpace_def isLineTerminator_def js_def

lemmas cls_defs = lowerAscii_def isUpperAscii_def isLowerAscii_def isDigit_def isWordChar_def

lemma inputLines_informationInput:
  "inputLines informationInput = [js ''INFORMATION'', js ''  '' @ rulesLine]"
  by (simp add: inputLines_def informationInput_def rulesLine_def normalizeLine_def
      isBarGlyph_def str_defs)

lemma isRoleLine_information: "isRoleLine (js ''INFORMATION'') = False"
  by (simp add: isRoleLine_def colorMarkAt_def cls_defs str_defs)

lemma isRoleLine_rulesLine: "isRoleLine (js ''  '' @ rulesLine) = False"
  by (simp add: isRoleLine_def colorMarkAt_def rulesLine_def cls_defs str_defs)

lemma trimmed_information: "normalizeLine (trim (js ''INFORMATION'')) = js ''INFORMATION''"
  by (simp add: normalizeLine_def isBarGlyph_def str_defs)

lemma trimmed_rulesLine: "normalizeLine (trim (js ''  '' @ rulesLine)) = rulesLine"
  by (simp add: normalizeLine_def isBarGlyph_def rulesLine_def str_defs)

lemma normalizeLine_rulesLine: "normalizeLine rulesLine = rulesLine"
  by (simp add: normalizeLine_def isBarGlyph_def rulesLine_def str_defs)

lemma normalizeLine_information: "normalizeLine (js ''INFORMATION'') = js ''INFORMATION''"
  by (simp add: normalizeLine_def isBarGlyph_def str_defs)

lemma looksLikeChannel_information: "looksLikeChannel (js ''INFORMATION'') = False"
  unfolding looksLikeChannel_def normalizeLine_information Let_def
  by (simp add: hashTokenAt_def typeAt_def hasVoiceWord_def cls_defs str_defs)

lemma isCategoryLine_information: "isCategoryLine (js ''INFORMATION'') = False"
  by (simp add: isCategoryLine_def cls_defs str_defs)

lemma cleanCategoryName_information: "cleanCategoryName U (js ''INFORMATION'') = js ''INFORMATION''"
  unfolding cleanCategoryName_def normalizeLine_information Let_def
  by (simp add: isLetterOrNumber_def isHighSurrogate_def isLowSurrogate_def cls_defs str_defs)

lemma looksLikeChannel_pipe: "124 \<in> set (normalizeLine l) \<Longrightarrow> looksLikeChannel l"
  by (simp add: looksLikeChannel_def Let_def)

lemma looksLikeChannel_rulesLine: "looksLikeChannel rulesLine = True"
proof -
  have "124 \<in> set rulesLine"
    by (simp add: rulesLine_def js_def)
  then show ?thesis
    by (simp add: looksLikeChannel_pipe normalizeLine_rulesLine)
qed

lemma isCategoryLine_rulesLine: "isCategoryLine rulesLine = False"
  by (simp add: isCategoryLine_def rulesLine_def cls_defs str_defs)

lemma typeVoice_rulesLine: "anywhere typeVoiceAt rulesLine = False"
  by (simp add: typeVoiceAt_def rulesLine_def cls_defs str_defs)

lemma hasVoiceWord_rulesLine: "hasVoiceWord rulesLine = False"
  by (simp add: hasVoiceWord_def rulesLine_def cls_defs str_defs)

lemma hashName_rulesLine: "findFirst hashNameAt rulesLine = Some ([], js ''rules'')"
  by (simp add: hashNameAt_def rulesLine_def cls_defs str_defs)

lemma slugifyPreserve_rules: "slugifyPreserve U (js ''rules'') = js ''rules''"
  by (simp add: slugifyPreserve_def trimHyphens_def normalizeLine_def isBarGlyph_def
      isLetterOrNumber_def isHighSurrogate_def isLowSurrogate_def toLowerCase_def Let_def
      cls_defs str_defs)

lemma extractTopic_rulesLine: "extractTopic rulesLine = None"
  by (simp add: extractTopic_def topicAt_def rulesLine_def str_defs)

lemma suggestDescription_rules: "suggestDescription U (js ''rules'') False = js ''Server rules.''"
  by (simp add: suggestDescription_def includesStr_def toLowerCase_def Let_def cls_defs str_defs)

lemma extractPermissions_rulesLine:
  "extractPermissions rulesLine = [js ''View Channel'', js ''Read Message History'']"
  by (simp add: extractPermissions_def permissionsAt_def rulesLine_def cls_defs str_defs)

lemma permissionsToBitfield_rules:
  "permissionsToBitfield U F [js ''View Channel'', js ''Read Message History'']
     = F ViewChannel OR F ReadMessageHistory"
  by (simp add: permissionsToBitfield_def resolveFlags_def normPerm_def permFlag_def
      toLowerCase_def cls_defs str_defs)

lemma buildChannelFromLine_rulesLine:
  "buildChannelFromLine U F rulesLine =
     \<lparr>ch_name = Some (js ''rules''), ch_type = TypeStr (js ''text''),
      ch_topic = Some (js ''Server rules.''), ch_nsfw = False, ch_slowmode = 0,
      ch_overwrites =
        Some [\<lparr>roleRefId = js ''everyone'',
               allow = Some (decimal (F ViewChannel OR F ReadMessageHistory)),
               deny = Some (js ''0'')\<rparr>]\<rparr>"
proof -
  have nonempty: "(js ''rules'' = []) = False"
    by (simp add: js_def)
  show ?thesis
    by (simp add: buildChannelFromLine_def Let_def normalizeLine_rulesLine typeVoice_rulesLine
        hasVoiceWord_rulesLine hashName_rulesLine slugifyPreserve_rules extractTopic_rulesLine
        suggestDescription_rules extractPermissions_rulesLine permissionsToBitfield_rules
        nonempty)
qed

lemma parseLine_information:
  "parseLine U F R (js ''INFORMATION'')
       \<lparr>ps_categories = [], ps_roles = [], currentCategory = None\<rparr>
     = \<lparr>ps_categories = [\<lparr>cat_name = Some (js ''INFORMATION''), cat_channels = Some []\<rparr>],
        ps_roles = [], currentCategory = Some 0\<rparr>"
proof -
  have nodash: "(case js ''INFORMATION'' of [] \<Rightarrow> False | c # r \<Rightarrow> c = 45) = False"
    by (simp add: js_def)
  show ?thesis
    by (simp add: parseLine_def Let_def pushCategory_def isRoleLine_information
        trimmed_information looksLikeChannel_information isCategoryLine_information
        cleanCategoryName_information nodash)
qed

lemma parseLine_rulesLine:
  "parseLine U F R (js ''  '' @ rulesLine)
       \<lparr>ps_categories = [\<lparr>cat_name = Some (js ''INFORMATION''), cat_channels = Some []\<rparr>],
        ps_roles = [], currentCategory = Some 0\<rparr>
     = \<lparr>ps_categories =
          [\<lparr>cat_name = Some (js ''INFORMATION''),
            cat_channels = Some [buildChannelFromLine U F rulesLine]\<rparr>],
        ps_roles = [], currentCategory = Some 0\<rparr>"
  by (simp add: parseLine_def Let_def pushChannel_def channelsOf_def isRoleLine_rulesLine
      trimmed_rulesLine looksLikeChannel_rulesLine isCategoryLine_rulesLine)

lemma parse_informationInput:
  "parseTextStructure U F R informationInput =
     \<lparr>categories =
        Some [\<lparr>cat_name = Some (js ''INFORMATION''),
               cat_channels =
                 Some [\<lparr>ch_name = Some (js ''rules''), ch_type = TypeStr (js ''text''),
                        ch_topic = Some (js ''Server rules.''), ch_nsfw = False, ch_slowmode = 0,
                        ch_overwrites =
                          Some [\<lparr>roleRefId = js ''everyone'',
                                 allow = Some (decimal (F ViewChannel OR F ReadMessageHistory)),
                                 deny = Some (js ''0'')\<rparr>]\<rparr>]\<rparr>],
      roles = Some [],
      summary = js ''1 categories / 1 channels''\<rparr>"
proof -
  have st: "parseLines U F R (inputLines informationInput)
              \<lparr>ps_categories = [], ps_roles = [], currentCategory = None\<rparr>
     = \<lparr>ps_categories =
          [\<lparr>cat_name = Some (js ''INFORMATION''),
            cat_channels = Some [buildChannelFromLine U F rulesLine]\<rparr>],
        ps_roles = [], currentCategory = Some 0\<rparr>"
    by (simp add: inputLines_informationInput parseLine_information parseLine_rulesLine)
  have summ: "decimal (Suc 0) @ js '' categories / '' @ decimal (Suc 0) @ js '' channels''
                = js ''1 categories / 1 channels''"
    by (simp add: decimal.simps js_def)
  show ?thesis
    unfolding parseTextStructure_def Let_def st
    by (simp add: channelsOf_def buildChannelFromLine_rulesLine summ)
qed

lemmas parse_defs =
  parseTextStructure_def inputLines_def parseLine_def pushCategory_def pushChannel_def
  buildRoleFromLine_def extractPermissions_def permissionsAt_def
  colorAt_def colorMarkAt_def isRoleLine_def normalizeLine_def
  isBarGlyph_def parseHex_def hexDigitValue_def isHexDigit_def
  permissionsToBitfield_def resolveFlags_def normPerm_def permFlag_def
  toLowerCase_def channelsOf_def Let_def decimal.simps

lemma parse_ownerInput:
  "parseTextStructure U F R ownerInput =
     \<lparr>categories = Some [],
      roles = Some [\<lparr>refId = R 0, role_name = js ''Owner | |'', role_color = 16711680,
                     role_hoist = False, role_mentionable = True,
                     role_permissions = Some (decimal (F Administrator OR F ManageRoles)),
                     isEveryone = False\<rparr>],
      summary = js ''0 categories / 0 channels''\<rparr>"
  by (simp add: ownerInput_def parse_defs cls_defs str_defs)

lemma mappedFlags_rules:
  "mappedFlags U [js ''View Channel'', js ''Read Message History'']
     = [ViewChannel, ReadMessageHistory]"
  by (simp add: normPerm_def permFlag_def toLowerCase_def cls_defs str_defs)

lemma permissionsToBitfield_exn_rules:
  "T ViewChannel = None \<Longrightarrow>
   permissionsToBitfield_exn U T [js ''View Channel'', js ''Read Message History'']
     = Inl (FlagInvalid ViewChannel)"
  unfolding permissionsToBitfield_exn_def newPermissionsBitField_def mappedFlags_rules
  by simp

lemma buildChannelFromLine_exn_rulesLine:
  "T ViewChannel = None \<Longrightarrow>
   buildChannelFromLine_exn U T rulesLine = Inl (FlagInvalid ViewChannel)"
  by (simp add: buildChannelFromLine_exn_def Let_def normalizeLine_rulesLine
      extractPermissions_rulesLine permissionsToBitfield_exn_rules)

lemma parseLine_exn_information:
  "parseLine_exn U T R (js ''INFORMATION'')
       \<lparr>ps_categories = [], ps_roles = [], currentCategory = None\<rparr>
     = Inr \<lparr>ps_categories = [\<lparr>cat_name = Some (js ''INFORMATION''), cat_channels = Some []\<rparr>],
            ps_roles = [], currentCategory = Some 0\<rparr>"
proof -
  have nodash: "(case js ''INFORMATION'' of [] \<Rightarrow> False | c # r \<Rightarrow> c = 45) = False"
    by (simp add: js_def)
  show ?thesis
    by (simp add: parseLine_exn_def Let_def pushCategory_def isRoleLine_information
        trimmed_information looksLikeChannel_information isCategoryLine_information
        cleanCategoryName_information nodash)
qed

lemma parseLine_exn_rulesLine:
  "T ViewChannel = None \<Longrightarrow>
   parseLine_exn U T R (js ''  '' @ rulesLine) st = Inl (FlagInvalid ViewChannel)"
  by (simp add: parseLine_exn_def Let_def isRoleLine_rulesLine trimmed_rulesLine
      looksLikeChannel_rulesLine isCategoryLine_rulesLine buildChannelFromLine_exn_rulesLine)

lemma parse_exn_informationInput:
  "T ViewChannel = None \<Longrightarrow>
   parseTextStructure_exn U T R informationInput = Inl (FlagInvalid ViewChannel)"
  by (simp add: parseTextStructure_exn_def inputLines_informationInput parseLine_exn_information
      parseLine_exn_rulesLine)

lemma lineKind_information: "lineKind (js ''INFORMATION'') = CategoryLine"
proof -
  have nodash: "(case js ''INFORMATION'' of [] \<Rightarrow> False | c # r \<Rightarrow> c = 45) = False"
    by (simp add: js_def)
  show ?thesis
    by (simp add: lineKind_def Let_def isRoleLine_information trimmed_information
        looksLikeChannel_information isCategoryLine_information nodash)
qed

lemma lineKind_rulesLine: "lineKind (js ''  '' @ rulesLine) = ChannelLine"
  by (simp add: lineKind_def Let_def isRoleLine_rulesLine trimmed_rulesLine
      looksLikeChannel_rulesLine isCategoryLine_rulesLine)

section \<open>Decimal numerals\<close>

lemma decimal_nonempty: "decimal n \<noteq> []"
  by (subst decimal.simps) simp

lemma digitsValue_snoc: "digitsValue (s @ [c]) = 10 * digitsValue s + (c - 48)"
  by (simp add: digitsValue_def)

lemma digitsValue_decimal: "digitsValue (decimal n) = n"
proof (induction n rule: decimal.induct)
  case (1 n)
  show ?case
  proof (cases "n < 10")
    case True
    then show ?thesis
      by (subst decimal.simps) (simp add: digitsValue_def)
  next
    case False
    with 1 have "digitsValue (decimal (n div 10)) = n div 10" by simp
    with False show ?thesis
      by (subst decimal.simps) (simp add: digitsValue_snoc)
  qed
qed

lemma decimal_digits: "list_all isDigit (decimal n)"
proof (induction n rule: decimal.induct)
  case (1 n)
  show ?case
  proof (cases "n < 10")
    case True
    then show ?thesis
      by (subst decimal.simps) (simp add: isDigit_def)
  next
    case False
    with 1 have "list_all isDigit (decimal (n div 10))" by simp
    moreover have "n mod 10 < 10" by simp
    ultimately show ?thesis
      using False by (subst decimal.simps) (simp add: isDigit_def)
  qed
qed

lemma decimal_inj: "decimal a = decimal b \<Longrightarrow> a = b"
  by (metis digitsValue_decimal)

lemma normalizePermValue_decimal: "normalizePermValue L (Some (decimal n)) = Inr (int n)"
  by (simp add: normalizePermValue_def decimal_digits digitsValue_decimal)

lemma bigintToString_permOf_decimal: "bigintToString (permOf L (Some (decimal n))) = decimal n"
  by (simp add: permOf_def normalizePermValue_decimal bigintToString_def)

section \<open>The category map of the extractor\<close>

lemma mapSet_fresh: "k \<notin> fst ` set m \<Longrightarrow> mapSet k v m = m @ [(k, v)]"
  by (induction m) auto

lemma foldl_mapSet_fresh:
  "distinct (map fst m @ map key cs) \<Longrightarrow>
   foldl (\<lambda>m c. mapSet (key c) (val c) m) m cs = m @ map (\<lambda>c. (key c, val c)) cs"
proof (induction cs arbitrary: m)
  case Nil
  then show ?case by simp
next
  case (Cons c cs)
  from Cons.prems have fresh: "key c \<notin> fst ` set m"
    by auto
  from Cons.prems have "distinct (map fst (m @ [(key c, val c)]) @ map key cs)"
    by auto
  from Cons.IH [OF this] fresh show ?case
    by (simp add: mapSet_fresh)
qed

lemma mapSet_present:
  "distinct (map fst m) \<Longrightarrow> k \<in> fst ` set m \<Longrightarrow>
   mapSet k v m = map (\<lambda>(k', v'). (k', if k' = k then v else v')) m"
proof (induction m)
  case Nil
  then show ?case by simp
next
  case (Cons e m)
  obtain k' v' where e: "e = (k', v')" by (cases e)
  show ?case
  proof (cases "k' = k")
    case True
    with Cons.prems e have "k \<notin> fst ` set m" by auto
    then have "map (\<lambda>(k', v'). (k', if k' = k then v else v')) m = m"
      by (induction m) auto
    with True e show ?thesis by simp
  next
    case False
    with Cons e show ?thesis by auto
  qed
qed

lemma pushToParent_map:
  assumes "distinct (map fst m)"
  shows "pushToParent ch m =
     map (\<lambda>(p, cat). (p, if lc_parentId ch = Some p
                          then cat\<lparr>cat_channels := Some (channelsOf cat @ [channelTemplate ch])\<rparr>
                          else cat)) m"
proof (cases "lc_parentId ch")
  case None
  then show ?thesis
    by (simp add: pushToParent_def case_prod_unfold)
next
  case (Some pid)
  show ?thesis
  proof (cases "map_of m pid")
    case None
    then have "pid \<notin> fst ` set m"
      by (simp add: map_of_eq_None_iff)
    then have "map (\<lambda>(p, cat). (p, if Some pid = Some p
                          then cat\<lparr>cat_channels := Some (channelsOf cat @ [channelTemplate ch])\<rparr>
                          else cat)) m = m"
      by (induction m) auto
    with None Some show ?thesis
      by (simp add: pushToParent_def)
  next
    case (Some parent)
    then have mem: "(pid, parent) \<in> set m"
      by (rule map_of_SomeD)
    then have key: "pid \<in> fst ` set m"
      by force
    have "map (\<lambda>(k', v'). (k', if k' = pid
              then parent\<lparr>cat_channels := Some (channelsOf parent @ [channelTemplate ch])\<rparr>
              else v')) m
        = map (\<lambda>(p, cat). (p, if Some pid = Some p
                          then cat\<lparr>cat_channels := Some (channelsOf cat @ [channelTemplate ch])\<rparr>
                          else cat)) m"
    proof (rule map_cong [OF refl])
      fix e assume e: "e \<in> set m"
      obtain p cat where pc: "e = (p, cat)" by (cases e)
      show "(case e of (k', v') \<Rightarrow> (k', if k' = pid
              then parent\<lparr>cat_channels := Some (channelsOf parent @ [channelTemplate ch])\<rparr>
              else v'))
          = (case e of (p, cat) \<Rightarrow> (p, if Some pid = Some p
                          then cat\<lparr>cat_channels := Some (channelsOf cat @ [channelTemplate ch])\<rparr>
                          else cat))"
      proof (cases "p = pid")
        case True
        with e pc have "map_of m pid = Some cat"
          using map_of_is_SomeI [OF assms] by simp
        with Some have "cat = parent"
          by simp
        with True pc show ?thesis by simp
      next
        case False
        with pc show ?thesis by auto
      qed
    qed
    with Some \<open>lc_parentId ch = Some pid\<close> mapSet_present [OF assms key] show ?thesis
      by (simp add: pushToParent_def)
  qed
qed

lemma foldl_pushToParent:
  assumes "distinct (map fst m)"
  shows "foldl (\<lambda>m ch. pushToParent ch m) m ks =
     map (\<lambda>(p, cat). (p, if filter (\<lambda>k. lc_parentId k = Some p) ks = [] then cat
                          else cat\<lparr>cat_channels :=
                                 Some (channelsOf cat
                                       @ map channelTemplate (filter (\<lambda>k. lc_parentId k = Some p) ks))\<rparr>)) m"
  using assms
proof (induction ks arbitrary: m)
  case Nil
  then show ?case by (simp add: case_prod_unfold)
next
  case (Cons k ks)
  let ?m1 = "pushToParent k m"
  have m1: "?m1 = map (\<lambda>(p, cat). (p, if lc_parentId k = Some p
                          then cat\<lparr>cat_channels := Some (channelsOf cat @ [channelTemplate k])\<rparr>
                          else cat)) m"
    using Cons.prems by (rule pushToParent_map)
  then have keys: "map fst ?m1 = map fst m"
    by (simp add: case_prod_unfold comp_def)
  with Cons.prems have "distinct (map fst ?m1)" by simp
  from Cons.IH [OF this] have "foldl (\<lambda>m ch. pushToParent ch m) m (k # ks) =
     map (\<lambda>(p, cat). (p, if filter (\<lambda>k. lc_parentId k = Some p) ks = [] then cat
                          else cat\<lparr>cat_channels :=
                                 Some (channelsOf cat
                                       @ map channelTemplate (filter (\<lambda>k. lc_parentId k = Some p) ks))\<rparr>)) ?m1"
    by simp
  also have "\<dots> = map (\<lambda>(p, cat). (p, if filter (\<lambda>k. lc_parentId k = Some p) (k # ks) = [] then cat
                          else cat\<lparr>cat_channels :=
                                 Some (channelsOf cat
                                       @ map channelTemplate (filter (\<lambda>k. lc_parentId k = Some p) (k # ks)))\<rparr>)) m"
    unfolding m1 by (auto simp: channelsOf_def)
  finally show ?case .
qed

section \<open>The extractor in closed form\<close>

lemma fromGuild_categories:
  assumes sorted: "sorted (map lc_rawPosition (g_channels g))"
    and dist: "distinct (map lc_id (filter (\<lambda>ch. lc_type ch = 4) (g_channels g)))"
  shows "categories (fromGuild g) =
     Some (map (\<lambda>c. \<lparr>cat_name = Some (lc_name c),
                      cat_channels = Some (map channelTemplate (childrenOf (lc_id c) (g_channels g)))\<rparr>)
             (filter (\<lambda>ch. lc_type ch = 4) (g_channels g)))"
proof -
  let ?cats = "filter (\<lambda>ch. lc_type ch = 4) (g_channels g)"
  let ?kids = "filter hasParent (g_channels g)"
  let ?new = "\<lambda>cat. \<lparr>cat_name = Some (lc_name cat), cat_channels = Some []\<rparr>"
  have s1: "sort_key lc_rawPosition ?cats = ?cats"
    using sorted by (intro sort_key_id_if_sorted sorted_filter)
  have s2: "sort_key lc_rawPosition ?kids = ?kids"
    using sorted by (intro sort_key_id_if_sorted sorted_filter)
  have m0: "foldl (\<lambda>m cat. mapSet (lc_id cat) (?new cat) m) [] ?cats
              = map (\<lambda>c. (lc_id c, ?new c)) ?cats"
    using foldl_mapSet_fresh [of "[]" lc_id ?cats ?new] dist by simp
  have d0: "distinct (map fst (map (\<lambda>c. (lc_id c, ?new c)) ?cats))"
    using dist by (simp add: comp_def)
  have "map snd (foldl (\<lambda>m ch. pushToParent ch m) (map (\<lambda>c. (lc_id c, ?new c)) ?cats) ?kids)
      = map (\<lambda>c. \<lparr>cat_name = Some (lc_name c),
                      cat_channels = Some (map channelTemplate (childrenOf (lc_id c) (g_channels g)))\<rparr>)
          ?cats"
    unfolding foldl_pushToParent [OF d0]
    by (simp add: comp_def childrenOf_def channelsOf_def)
  then show ?thesis
    by (simp add: fromGuild_def Let_def s1 s2 m0)
qed

lemma categoryShape_fromGuild:
  assumes "sorted (map lc_rawPosition (g_channels g))"
    and "distinct (map lc_id (filter (\<lambda>ch. lc_type ch = 4) (g_channels g)))"
  shows "map categoryShape (categoriesOfTemplate (fromGuild g)) = liveShapes (g_channels g)"
proof -
  have "channelShape (channelTemplate k) = liveShape k" for k
    by (simp add: channelShape_def channelTemplate_def liveShape_def)
  then show ?thesis
    by (simp add: fromGuild_categories [OF assms] categoriesOfTemplate_def liveShapes_def
        categoryShape_def channelsOf_def comp_def)
qed

lemma hasParent_stripOverwrites [simp]: "hasParent (stripOverwrites k) = hasParent k"
  by (simp add: hasParent_def stripOverwrites_def)

lemma liveShape_stripOverwrites [simp]: "liveShape (stripOverwrites k) = liveShape k"
  by (simp add: liveShape_def stripOverwrites_def)

lemma fields_stripOverwrites [simp]:
  "lc_id (stripOverwrites k) = lc_id k" "lc_name (stripOverwrites k) = lc_name k"
  "lc_type (stripOverwrites k) = lc_type k" "lc_parentId (stripOverwrites k) = lc_parentId k"
  "lc_rawPosition (stripOverwrites k) = lc_rawPosition k"
  by (simp_all add: stripOverwrites_def)

lemma liveShapes_stripOverwrites: "liveShapes (map stripOverwrites xs) = liveShapes xs"
  by (simp add: liveShapes_def childrenOf_def filter_map comp_def)

section \<open>A run on the storing service\<close>

lemma store_guild_roles_create:
  "guild_roles_create (storePlatform e) payload (g, calls) =
     (Inr (freshId g), (snd (storeRole payload g), calls @ [RolesCreate payload]))"
  by (simp add: guild_roles_create_def storePlatform_def storeRole_def)

lemma store_guild_channels_create:
  "guild_channels_create (storePlatform e) payload (g, calls) =
     (Inr (freshId g),
      (g\<lparr>g_channels := g_channels g
           @ [storedChannel (length (g_roles g)) (length (g_channels g)) payload]\<rparr>,
       calls @ [ChannelsCreate payload]))"
  by (simp add: guild_channels_create_def storePlatform_def storeChannel_def storedChannel_def
      freshId_def)

lemma store_createChannelSafe:
  "createChannelSafe (storePlatform e) payload (g, calls) =
     (Inr (freshId g),
      (g\<lparr>g_channels := g_channels g
           @ [storedChannel (length (g_roles g)) (length (g_channels g)) payload]\<rparr>,
       calls @ [ChannelsCreate payload]))"
  by (simp add: createChannelSafe_def store_guild_channels_create)

lemma store_ensureRolesLoop:
  "ensureRolesLoop (storePlatform e) L rs m (g, calls) = (Inr m', (g', calls')) \<Longrightarrow>
     g_channels g' = g_channels g
     \<and> g_roles g' = g_roles g
          @ storedRoles L (length (g_channels g)) (length (g_roles g)) (creatable (storePlatform e) rs)"
proof (induction rs arbitrary: m g calls)
  case Nil
  then show ?case by (simp add: creatable_def)
next
  case (Cons tpl rest)
  show ?case
  proof (cases "bindsToBase (storePlatform e) tpl")
    case True
    with Cons.prems have "ensureRolesLoop (storePlatform e) L rest
        (m(refId tpl \<mapsto> everyoneId (storePlatform e))) (g, calls) = (Inr m', (g', calls'))"
      by (simp add: bindsToBase_def)
    from Cons.IH [OF this] True show ?thesis
      by (simp add: creatable_def)
  next
    case False
    then have cr: "creatable (storePlatform e) (tpl # rest) = tpl # creatable (storePlatform e) rest"
      by (simp add: creatable_def)
    from Cons.prems False obtain perms where
      perms: "normalizePermValue L (role_permissions tpl) = Inr perms"
      by (auto simp: bindsToBase_def split: sum.splits)
    let ?g1 = "snd (storeRole (rolePayload tpl perms) g)"
    from Cons.prems False perms
    have "ensureRolesLoop (storePlatform e) L rest (m(refId tpl \<mapsto> freshId g))
            (?g1, calls @ [RolesCreate (rolePayload tpl perms)]) = (Inr m', (g', calls'))"
      by (simp add: bindsToBase_def store_guild_roles_create)
    from Cons.IH [OF this]
    have "g_channels g' = g_channels ?g1"
      and "g_roles g' = g_roles ?g1
          @ storedRoles L (length (g_channels ?g1)) (length (g_roles ?g1))
              (creatable (storePlatform e) rest)"
      by simp_all
    moreover have "g_channels ?g1 = g_channels g"
      and "g_roles ?g1 = g_roles g @ [storedRole L (length (g_channels g)) (length (g_roles g)) tpl]"
      using perms
      by (simp_all add: storeRole_def storedRole_def rolePayload_def freshId_def permOf_def)
    ultimately show ?thesis
      by (simp add: cr)
  qed
qed

lemma store_applyOverwrites:
  "applyOverwrites (storePlatform e) L m channelId ows (g, calls) = (r, (g', calls')) \<Longrightarrow>
     g_roles g' = g_roles g
     \<and> map stripOverwrites (g_channels g') = map stripOverwrites (g_channels g)"
proof (induction ows arbitrary: g calls)
  case Nil
  then show ?case by simp
next
  case (Cons ow ows)
  show ?case
  proof (cases "resolvable m ow")
    case False
    with Cons.prems
    have "applyOverwrites (storePlatform e) L m channelId ows (g, calls) = (r, (g', calls'))"
      by (auto simp: resolvable_def split: option.splits)
    then show ?thesis by (rule Cons.IH)
  next
    case True
    then obtain rid where rid: "m (roleRefId ow) = Some rid" "rid \<noteq> []"
      by (auto simp: resolvable_def split: option.splits)
    show ?thesis
    proof (cases "\<exists>a d. normalizePermValue L (allow ow) = Inr a
                       \<and> normalizePermValue L (deny ow) = Inr d")
      case False
      with Cons.prems rid have "g' = g"
        by (auto split: sum.splits)
      then show ?thesis by simp
    next
      case True
      then obtain a d where a: "normalizePermValue L (allow ow) = Inr a"
        and d: "normalizePermValue L (deny ow) = Inr d" by blast
      let ?g1 = "snd (storeOverwrite channelId rid a d g)"
      have one: "permissionOverwrites_create (storePlatform e) channelId rid a d (g, calls)
                   = (Inr (), (?g1, calls @ [OverwritesCreate channelId rid a d]))"
        by (simp add: permissionOverwrites_create_def storePlatform_def storeOverwrite_def)
      with Cons.prems rid a d
      have "applyOverwrites (storePlatform e) L m channelId ows
              (?g1, calls @ [OverwritesCreate channelId rid a d]) = (r, (g', calls'))"
        by simp
      from Cons.IH [OF this]
      have "g_roles g' = g_roles ?g1"
        and "map stripOverwrites (g_channels g') = map stripOverwrites (g_channels ?g1)"
        by simp_all
      moreover have "g_roles ?g1 = g_roles g"
        and "map stripOverwrites (g_channels ?g1) = map stripOverwrites (g_channels g)"
        by (simp_all add: storeOverwrite_def stripOverwrites_def comp_def)
      ultimately show ?thesis by simp
    qed
  qed
qed

lemma stripOverwrites_storedChannel [simp]:
  "stripOverwrites (storedChannel R n payload) = storedChannel R n payload"
  by (simp add: stripOverwrites_def storedChannel_def)

lemma store_buildChannel:
  assumes "buildChannel (storePlatform e) L U m parent ch (g, calls) = (r, (g', calls'))"
  shows "g_roles g' = g_roles g
     \<and> map stripOverwrites (g_channels g') =
         map stripOverwrites (g_channels g)
         @ [storedChannel (length (g_roles g)) (length (g_channels g)) (channelPayload U parent ch)]"
proof (cases "ch_overwrites ch")
  case None
  with assms show ?thesis
    by (auto simp: buildChannel_def store_createChannelSafe)
next
  case (Some ows)
  let ?g1 = "g\<lparr>g_channels := g_channels g
           @ [storedChannel (length (g_roles g)) (length (g_channels g)) (channelPayload U parent ch)]\<rparr>"
  from assms Some
  have "applyOverwrites (storePlatform e) L m (freshId g) ows
          (?g1, calls @ [ChannelsCreate (channelPayload U parent ch)]) = (r, (g', calls'))"
    by (simp add: buildChannel_def store_createChannelSafe)
  from store_applyOverwrites [OF this] show ?thesis
    by simp
qed

lemma store_buildChannels:
  "buildChannels (storePlatform e) L U m parent chs (g, calls) = (Inr (), (g', calls')) \<Longrightarrow>
     g_roles g' = g_roles g
     \<and> map stripOverwrites (g_channels g') =
         map stripOverwrites (g_channels g)
         @ storedChannels U (length (g_roles g)) parent (length (g_channels g)) chs"
proof (induction chs arbitrary: g calls)
  case Nil
  then show ?case by simp
next
  case (Cons ch chs)
  obtain r1 g1 calls1 where one:
    "buildChannel (storePlatform e) L U m parent ch (g, calls) = (r1, (g1, calls1))"
    by (cases "buildChannel (storePlatform e) L U m parent ch (g, calls)") auto
  note first = store_buildChannel [OF one]
  from first have len: "length (g_channels g1) = Suc (length (g_channels g))"
    by (metis length_append_singleton length_map)
  from Cons.prems one
  have "buildChannels (storePlatform e) L U m parent chs (g1, calls1) = (Inr (), (g', calls'))"
    by (cases r1) simp_all
  from Cons.IH [OF this] first len show ?case
    by simp
qed

lemma store_buildCategories:
  "buildCategories (storePlatform e) L U m cats (g, calls) = (Inr (), (g', calls')) \<Longrightarrow>
     g_roles g' = g_roles g
     \<and> map stripOverwrites (g_channels g') =
         map stripOverwrites (g_channels g)
         @ storedCategories U (length (g_roles g)) (length (g_channels g)) cats"
proof (induction cats arbitrary: g calls)
  case Nil
  then show ?case by simp
next
  case (Cons cat cats)
  let ?R = "length (g_roles g)" and ?n = "length (g_channels g)"
  let ?g1 = "g\<lparr>g_channels := g_channels g @ [storedChannel ?R ?n (categoryPayload cat)]\<rparr>"
  obtain r2 g2 calls2 where two:
    "buildChannels (storePlatform e) L U m (freshId g) (channelsOf cat)
       (?g1, calls @ [ChannelsCreate (categoryPayload cat)]) = (r2, (g2, calls2))"
    by (cases "buildChannels (storePlatform e) L U m (freshId g) (channelsOf cat)
       (?g1, calls @ [ChannelsCreate (categoryPayload cat)])") auto
  from Cons.prems two have r2: "r2 = Inr ()"
    and rest: "buildCategories (storePlatform e) L U m cats (g2, calls2) = (Inr (), (g', calls'))"
    by (auto simp: store_guild_channels_create channelsOf_def split: sum.splits)
  from store_buildChannels [OF two [unfolded r2]]
  have mid: "g_roles g2 = g_roles g"
    "map stripOverwrites (g_channels g2) =
       map stripOverwrites (g_channels g) @ storedChannel ?R ?n (categoryPayload cat)
       # storedChannels U ?R (freshId g) (Suc ?n) (channelsOf cat)"
    by simp_all
  have lenkids: "length (storedChannels U R p k chs) = length chs" for R p k chs
    by (induction chs arbitrary: k) simp_all
  from mid(2) have "length (map stripOverwrites (g_channels g2)) = Suc ?n + length (channelsOf cat)"
    by (simp add: lenkids)
  then have len: "length (g_channels g2) = Suc ?n + length (channelsOf cat)"
    by simp
  from Cons.IH [OF rest] mid len show ?case
    by (simp add: freshId_def)
qed

lemma store_buildServerFromTemplate:
  assumes "buildServerFromTemplate (storePlatform e) L U t (g, calls) = (Inr (), (g', calls'))"
  shows "g_roles g' = g_roles g
           @ storedRoles L (length (g_channels g)) (length (g_roles g))
               (creatable (storePlatform e) (rolesOf t))
     \<and> map stripOverwrites (g_channels g') =
         map stripOverwrites (g_channels g)
         @ storedCategories U
             (length (g_roles g) + length (creatable (storePlatform e) (rolesOf t)))
             (length (g_channels g)) (categoriesOfTemplate t)"
proof -
  obtain r1 g1 calls1 where one:
    "ensureRolesLoop (storePlatform e) L (rolesOf t)
       (Map.empty(js ''everyone'' \<mapsto> everyoneId (storePlatform e))) (g, calls) = (r1, (g1, calls1))"
    by (cases "ensureRolesLoop (storePlatform e) L (rolesOf t)
       (Map.empty(js ''everyone'' \<mapsto> everyoneId (storePlatform e))) (g, calls)") auto
  from assms one obtain m cats where r1: "r1 = Inr m" and cats: "categories t = Some cats"
    and rest: "buildCategories (storePlatform e) L U m cats (g1, calls1) = (Inr (), (g', calls'))"
    by (auto simp: buildServerFromTemplate_def ensureRoles_def rolesOf_def
        split: sum.splits option.splits)
  have lenroles: "length (storedRoles L c n rs) = length rs" for c n rs
    by (induction rs arbitrary: n) simp_all
  from store_ensureRolesLoop [OF one [unfolded r1]]
  have roles1: "g_channels g1 = g_channels g"
    "g_roles g1 = g_roles g @ storedRoles L (length (g_channels g)) (length (g_roles g))
                               (creatable (storePlatform e) (rolesOf t))"
    by simp_all
  from store_buildCategories [OF rest] roles1 cats show ?thesis
    by (simp add: lenroles categoriesOfTemplate_def)
qed

section \<open>What the extractor reads after a run on the storing service\<close>

lemma length_storedChannels [simp]: "length (storedChannels U R p n chs) = length chs"
  by (induction chs arbitrary: n) simp_all

lemma length_storedRoles [simp]: "length (storedRoles L c n rs) = length rs"
  by (induction rs arbitrary: n) simp_all

lemma storedChannels_elem:
  "x \<in> set (storedChannels U R p n chs) \<Longrightarrow>
     lc_parentId x = Some p \<and> lc_type x \<noteq> 4
     \<and> (\<exists>j. n \<le> j \<and> j < n + length chs \<and> lc_id x = decimal (R + j) \<and> lc_rawPosition x = int j)"
proof (induction chs arbitrary: n)
  case Nil
  then show ?case by simp
next
  case (Cons ch chs)
  from Cons.prems consider "x = storedChannel R n (channelPayload U p ch)"
    | "x \<in> set (storedChannels U R p (Suc n) chs)" by auto
  then show ?case
  proof cases
    case 1
    have "lc_parentId x = Some p \<and> lc_type x \<noteq> 4 \<and> lc_id x = decimal (R + n)
            \<and> lc_rawPosition x = int n"
      unfolding 1
      by (simp add: storedChannel_def channelPayload_def Let_def GuildVoice_def GuildText_def)
    then show ?thesis by auto
  next
    case 2
    from Cons.IH [OF 2] obtain j where
      "lc_parentId x = Some p" "lc_type x \<noteq> 4" "Suc n \<le> j" "j < Suc n + length chs"
      "lc_id x = decimal (R + j)" "lc_rawPosition x = int j" by blast
    then have "lc_parentId x = Some p \<and> lc_type x \<noteq> 4
      \<and> n \<le> j \<and> j < n + length (ch # chs) \<and> lc_id x = decimal (R + j) \<and> lc_rawPosition x = int j"
      by simp
    then show ?thesis by blast
  qed
qed

lemma liveShape_storedChannels:
  "map liveShape (storedChannels U R p n chs) = map (sentChannelShape U) chs"
  by (induction chs arbitrary: n)
     (simp_all add: liveShape_def storedChannel_def channelPayload_def sentChannelShape_def
        Let_def GuildVoice_def GuildText_def)

lemma sorted_storedChannels: "sorted (map lc_rawPosition (storedChannels U R p n chs))"
proof (induction chs arbitrary: n)
  case Nil
  then show ?case by simp
next
  case (Cons ch chs)
  have "int n \<le> lc_rawPosition x" if "x \<in> set (storedChannels U R p (Suc n) chs)" for x
    using storedChannels_elem [OF that] by auto
  with Cons.IH [of "Suc n"] show ?case
    by (auto simp: storedChannel_def)
qed

lemma distinct_storedChannels: "distinct (map lc_id (storedChannels U R p n chs))"
proof (induction chs arbitrary: n)
  case Nil
  then show ?case by simp
next
  case (Cons ch chs)
  have "decimal (R + n) \<notin> lc_id ` set (storedChannels U R p (Suc n) chs)"
  proof
    assume "decimal (R + n) \<in> lc_id ` set (storedChannels U R p (Suc n) chs)"
    then obtain x where x: "x \<in> set (storedChannels U R p (Suc n) chs)"
      and eq: "decimal (R + n) = lc_id x"
      by (rule imageE)
    from storedChannels_elem [OF x] obtain j where j: "Suc n \<le> j" "lc_id x = decimal (R + j)"
      by blast
    from eq j(2) have "R + n = R + j"
      by (metis decimal_inj)
    with j(1) show False by simp
  qed
  moreover have "lc_id (storedChannel R n (channelPayload U p ch)) = decimal (R + n)"
    by (simp add: storedChannel_def)
  ultimately show ?case
    using Cons.IH [of "Suc n"] by simp
qed

lemma storedCategories_elem:
  "x \<in> set (storedCategories U R n cats) \<Longrightarrow>
     (\<exists>j. n \<le> j \<and> lc_id x = decimal (R + j) \<and> lc_rawPosition x = int j)
     \<and> (lc_type x = 4 \<longrightarrow> lc_parentId x = None)
     \<and> (lc_type x \<noteq> 4 \<longrightarrow> (\<exists>j. n \<le> j \<and> lc_parentId x = Some (decimal (R + j))))"
proof (induction cats arbitrary: n)
  case Nil
  then show ?case by simp
next
  case (Cons cat cats)
  from Cons.prems consider "x = storedChannel R n (categoryPayload cat)"
    | "x \<in> set (storedChannels U R (decimal (R + n)) (Suc n) (channelsOf cat))"
    | "x \<in> set (storedCategories U R (Suc n + length (channelsOf cat)) cats)" by auto
  then show ?case
  proof cases
    case 1
    have "lc_id x = decimal (R + n) \<and> lc_rawPosition x = int n \<and> lc_type x = 4
            \<and> lc_parentId x = None"
      unfolding 1 by (simp add: storedChannel_def categoryPayload_def GuildCategory_def)
    then show ?thesis by auto
  next
    case 2
    from storedChannels_elem [OF 2] obtain j where
      "lc_parentId x = Some (decimal (R + n))" "lc_type x \<noteq> 4" "Suc n \<le> j"
      "lc_id x = decimal (R + j)" "lc_rawPosition x = int j" by blast
    then have "(n \<le> j \<and> lc_id x = decimal (R + j) \<and> lc_rawPosition x = int j)
        \<and> lc_type x \<noteq> 4 \<and> (n \<le> n \<and> lc_parentId x = Some (decimal (R + n)))"
      by simp
    then show ?thesis by blast
  next
    case 3
    from Cons.IH [OF 3] obtain j where
      j: "Suc n + length (channelsOf cat) \<le> j" "lc_id x = decimal (R + j)"
         "lc_rawPosition x = int j"
      and cat: "lc_type x = 4 \<longrightarrow> lc_parentId x = None"
      and kid: "lc_type x \<noteq> 4 \<longrightarrow>
                  (\<exists>j. Suc n + length (channelsOf cat) \<le> j \<and> lc_parentId x = Some (decimal (R + j)))"
      by blast
    from j have "\<exists>j. n \<le> j \<and> lc_id x = decimal (R + j) \<and> lc_rawPosition x = int j"
      by (intro exI [of _ j]) simp
    moreover from kid have "lc_type x \<noteq> 4 \<longrightarrow> (\<exists>j. n \<le> j \<and> lc_parentId x = Some (decimal (R + j)))"
      by (meson Suc_leD add_leD1 le_trans le_add1)
    ultimately show ?thesis using cat by blast
  qed
qed

lemma storedCategories_bounds:
  "x \<in> set (storedCategories U R n cats) \<Longrightarrow>
     \<exists>j. n \<le> j \<and> j < n + length (storedCategories U R n cats)
        \<and> lc_id x = decimal (R + j) \<and> lc_rawPosition x = int j"
proof (induction cats arbitrary: n)
  case Nil
  then show ?case by simp
next
  case (Cons cat cats)
  let ?k = "length (channelsOf cat)"
  let ?rest = "storedCategories U R (Suc n + ?k) cats"
  from Cons.prems consider "x = storedChannel R n (categoryPayload cat)"
    | "x \<in> set (storedChannels U R (decimal (R + n)) (Suc n) (channelsOf cat))"
    | "x \<in> set ?rest" by auto
  then show ?case
  proof cases
    case 1
    have "lc_id x = decimal (R + n) \<and> lc_rawPosition x = int n"
      unfolding 1 by (simp add: storedChannel_def)
    then have "n \<le> n \<and> n < n + length (storedCategories U R n (cat # cats))
        \<and> lc_id x = decimal (R + n) \<and> lc_rawPosition x = int n"
      by simp
    then show ?thesis by blast
  next
    case 2
    from storedChannels_elem [OF 2] obtain j where
      "Suc n \<le> j" "j < Suc n + ?k" "lc_id x = decimal (R + j)" "lc_rawPosition x = int j"
      by blast
    then have "n \<le> j \<and> j < n + length (storedCategories U R n (cat # cats))
        \<and> lc_id x = decimal (R + j) \<and> lc_rawPosition x = int j"
      by simp
    then show ?thesis by blast
  next
    case 3
    from Cons.IH [OF 3] obtain j where
      "Suc n + ?k \<le> j" "j < Suc n + ?k + length ?rest" "lc_id x = decimal (R + j)"
      "lc_rawPosition x = int j"
      by blast
    then have "n \<le> j \<and> j < n + length (storedCategories U R n (cat # cats))
        \<and> lc_id x = decimal (R + j) \<and> lc_rawPosition x = int j"
      by simp
    then show ?thesis by blast
  qed
qed

lemma sorted_distinct_storedCategories:
  "sorted (map lc_rawPosition (storedCategories U R n cats))
   \<and> distinct (map lc_id (storedCategories U R n cats))"
proof (induction cats arbitrary: n)
  case Nil
  then show ?case by simp
next
  case (Cons cat cats)
  let ?k = "length (channelsOf cat)"
  let ?c0 = "storedChannel R n (categoryPayload cat)"
  let ?kids = "storedChannels U R (decimal (R + n)) (Suc n) (channelsOf cat)"
  let ?rest = "storedCategories U R (Suc n + ?k) cats"
  have kid: "\<exists>j. Suc n \<le> j \<and> j < Suc n + ?k \<and> lc_id x = decimal (R + j) \<and> lc_rawPosition x = int j"
    if "x \<in> set ?kids" for x
    using storedChannels_elem [OF that] by blast
  have rest: "\<exists>j. Suc n + ?k \<le> j \<and> lc_id x = decimal (R + j) \<and> lc_rawPosition x = int j"
    if "x \<in> set ?rest" for x
    using storedCategories_elem [OF that] by blast
  have c0: "lc_id ?c0 = decimal (R + n)" "lc_rawPosition ?c0 = int n"
    by (simp_all add: storedChannel_def)
  have sorted_kids: "sorted (map lc_rawPosition ?kids)"
    by (rule sorted_storedChannels)
  have distinct_kids: "distinct (map lc_id ?kids)"
    by (rule distinct_storedChannels)
  have kpos: "int (Suc n) \<le> lc_rawPosition x \<and> lc_rawPosition x < int (Suc n + ?k)"
    if "x \<in> set ?kids" for x
    using kid [OF that] by auto
  have rpos: "int (Suc n + ?k) \<le> lc_rawPosition y" if "y \<in> set ?rest" for y
    using rest [OF that] by auto
  have "\<forall>a \<in> set (map lc_rawPosition ?kids). \<forall>b \<in> set (map lc_rawPosition ?rest). a \<le> b"
  proof (intro ballI)
    fix a b
    assume "a \<in> set (map lc_rawPosition ?kids)" "b \<in> set (map lc_rawPosition ?rest)"
    then obtain x y where "x \<in> set ?kids" "a = lc_rawPosition x" "y \<in> set ?rest"
      "b = lc_rawPosition y" by auto
    with kpos [of x] rpos [of y] show "a \<le> b" by simp
  qed
  with sorted_kids Cons.IH [of "Suc n + ?k"]
  have tail: "sorted (map lc_rawPosition (?kids @ ?rest))"
    by (simp add: sorted_append)
  have "\<forall>b \<in> set (map lc_rawPosition (?kids @ ?rest)). int n \<le> b"
  proof
    fix b
    assume "b \<in> set (map lc_rawPosition (?kids @ ?rest))"
    then obtain x where "x \<in> set ?kids \<or> x \<in> set ?rest" "b = lc_rawPosition x" by auto
    with kpos [of x] rpos [of x] show "int n \<le> b" by auto
  qed
  with tail c0(2) have s: "sorted (map lc_rawPosition (?c0 # ?kids @ ?rest))"
    by simp
  have d: "distinct (map lc_id (?c0 # ?kids @ ?rest))"
  proof -
    have "lc_id ?c0 \<notin> lc_id ` set ?kids"
    proof
      assume "lc_id ?c0 \<in> lc_id ` set ?kids"
      then obtain x where x: "x \<in> set ?kids" and eq: "lc_id ?c0 = lc_id x"
        by (rule imageE)
      from kid [OF x] obtain j where j: "Suc n \<le> j" "lc_id x = decimal (R + j)" by blast
      from eq j(2) c0(1) have "R + n = R + j" by (metis decimal_inj)
      with j(1) show False by simp
    qed
    moreover have "lc_id ?c0 \<notin> lc_id ` set ?rest"
    proof
      assume "lc_id ?c0 \<in> lc_id ` set ?rest"
      then obtain x where x: "x \<in> set ?rest" and eq: "lc_id ?c0 = lc_id x"
        by (rule imageE)
      from rest [OF x] obtain j where j: "Suc n + ?k \<le> j" "lc_id x = decimal (R + j)" by blast
      from eq j(2) c0(1) have "R + n = R + j" by (metis decimal_inj)
      with j(1) show False by simp
    qed
    moreover have "lc_id ` set ?kids \<inter> lc_id ` set ?rest = {}"
    proof (rule ccontr)
      assume "lc_id ` set ?kids \<inter> lc_id ` set ?rest \<noteq> {}"
      then obtain x y where xy: "x \<in> set ?kids" "y \<in> set ?rest" "lc_id x = lc_id y"
        by auto
      from kid [OF xy(1)] obtain i where i: "i < Suc n + ?k" "lc_id x = decimal (R + i)" by blast
      from rest [OF xy(2)] obtain j where j: "Suc n + ?k \<le> j" "lc_id y = decimal (R + j)" by blast
      from i j xy(3) have "R + i = R + j" by (metis decimal_inj)
      with i j show False by simp
    qed
    ultimately show ?thesis
      using Cons.IH [of "Suc n + ?k"] distinct_kids by simp
  qed
  from s d show ?case by simp
qed

lemma childrenOf_append: "childrenOf q (xs @ ys) = childrenOf q xs @ childrenOf q ys"
  by (simp add: childrenOf_def)

lemma childrenOf_storedChannels:
  "childrenOf q (storedChannels U R (decimal p) n chs) =
     (if q = decimal p then storedChannels U R (decimal p) n chs else [])"
proof -
  have "hasParent x \<and> lc_parentId x = Some (decimal p)"
    if "x \<in> set (storedChannels U R (decimal p) n chs)" for x
    using storedChannels_elem [OF that] by (simp add: hasParent_def decimal_nonempty)
  then show ?thesis
    by (auto simp: childrenOf_def filter_empty_conv filter_id_conv)
qed

lemma childrenOf_foreign:
  assumes "i < n"
  shows "childrenOf (decimal (R + i)) (storedCategories U R n cats) = []"
proof -
  have "\<not> (hasParent x \<and> lc_parentId x = Some (decimal (R + i)))"
    if "x \<in> set (storedCategories U R n cats)" for x
  proof
    assume a: "hasParent x \<and> lc_parentId x = Some (decimal (R + i))"
    with storedCategories_elem [OF that] obtain j where
      "n \<le> j" "lc_parentId x = Some (decimal (R + j))"
      by (cases "lc_type x = 4") (auto simp: hasParent_def)
    with a have "R + i = R + j" by (metis decimal_inj option.inject)
    with assms \<open>n \<le> j\<close> show False by simp
  qed
  then show ?thesis
    by (auto simp: childrenOf_def filter_empty_conv)
qed

lemma liveShapes_storedCategories:
  "liveShapes (storedCategories U R n cats) = map (sentCategoryShape U) cats"
proof (induction cats arbitrary: n)
  case Nil
  then show ?case by (simp add: liveShapes_def)
next
  case (Cons cat cats)
  let ?k = "length (channelsOf cat)"
  let ?c0 = "storedChannel R n (categoryPayload cat)"
  let ?kids = "storedChannels U R (decimal (R + n)) (Suc n) (channelsOf cat)"
  let ?rest = "storedCategories U R (Suc n + ?k) cats"
  let ?E = "?c0 # ?kids @ ?rest"
  let ?isCat = "\<lambda>ch. lc_type ch = 4"
  have c0: "lc_type ?c0 = 4" "lc_id ?c0 = decimal (R + n)" "\<not> hasParent ?c0"
    "lc_name ?c0 = sanitizeName (Some (orDefault (cat_name cat) (js ''Category'')))"
    by (simp_all add: storedChannel_def categoryPayload_def GuildCategory_def hasParent_def)
  have nokids: "filter ?isCat ?kids = []"
    using storedChannels_elem by (fastforce simp: filter_empty_conv)
  have cats: "filter ?isCat ?E = ?c0 # filter ?isCat ?rest"
    using c0(1) nokids by simp
  have first: "childrenOf (decimal (R + n)) ?E = ?kids"
    using c0(3) childrenOf_foreign [of n "Suc n + ?k" R U cats]
    by (simp add: childrenOf_append [of _ "[?c0]" "?kids @ ?rest", simplified]
        childrenOf_append childrenOf_storedChannels)
       (simp add: childrenOf_def)
  have later: "childrenOf (lc_id c) ?E = childrenOf (lc_id c) ?rest"
    if "c \<in> set ?rest" for c
  proof -
    from storedCategories_elem [OF that] obtain j where
      j: "Suc n + ?k \<le> j" "lc_id c = decimal (R + j)" by blast
    then have ne: "decimal (R + j) \<noteq> decimal (R + n)"
      by (auto dest: decimal_inj)
    have "childrenOf (lc_id c) [?c0] = []"
      using c0(3) by (simp add: childrenOf_def)
    moreover have "childrenOf (lc_id c) ?kids = []"
      using ne j(2) by (simp add: childrenOf_storedChannels)
    ultimately show ?thesis
      using childrenOf_append [of "lc_id c" "[?c0]" "?kids @ ?rest"]
      by (simp add: childrenOf_append)
  qed
  have "liveShapes ?E =
      (Some (lc_name ?c0), map liveShape (childrenOf (lc_id ?c0) ?E))
      # map (\<lambda>c. (Some (lc_name c), map liveShape (childrenOf (lc_id c) ?E))) (filter ?isCat ?rest)"
    unfolding liveShapes_def cats by simp
  also have "map (\<lambda>c. (Some (lc_name c), map liveShape (childrenOf (lc_id c) ?E))) (filter ?isCat ?rest)
      = map (\<lambda>c. (Some (lc_name c), map liveShape (childrenOf (lc_id c) ?rest))) (filter ?isCat ?rest)"
  proof (rule map_cong [OF refl])
    fix c
    assume "c \<in> set (filter ?isCat ?rest)"
    then have "c \<in> set ?rest" by simp
    from later [OF this]
    show "(Some (lc_name c), map liveShape (childrenOf (lc_id c) ?E))
            = (Some (lc_name c), map liveShape (childrenOf (lc_id c) ?rest))"
      by (simp only:)
  qed
  also have "\<dots> = liveShapes ?rest"
    by (simp add: liveShapes_def)
  finally have "liveShapes ?E =
      (Some (lc_name ?c0), map liveShape ?kids) # map (sentCategoryShape U) cats"
    using first c0(2) Cons.IH [of "Suc n + ?k"] by simp
  then show ?case
    by (simp add: c0(4) liveShape_storedChannels sentCategoryShape_def)
qed

lemma sorted_storedRoles:
  "sorted (map lr_rawPosition (storedRoles L c n rs))
   \<and> (\<forall>r \<in> set (storedRoles L c n rs). int n \<le> lr_rawPosition r)"
proof (induction rs arbitrary: n)
  case Nil
  then show ?case by simp
next
  case (Cons tpl rs)
  from Cons.IH [of "Suc n"] show ?case
    by (fastforce simp: storedRole_def)
qed

lemma storedRoles_triples:
  "map (\<lambda>r. (lr_name r, lr_color r, Some (bigintToString (lr_permissions r)))) (storedRoles L c n rs)
     = map (\<lambda>r. (role_name r, role_color r, Some (bigintToString (permOf L (role_permissions r))))) rs"
  by (induction rs arbitrary: n) (simp_all add: storedRole_def)

lemma storedRoles_nth:
  "i < length rs \<Longrightarrow> storedRoles L c n rs ! i = storedRole L c (n + i) (rs ! i)"
proof (induction rs arbitrary: n i)
  case Nil
  then show ?case by simp
next
  case (Cons tpl rs)
  show ?case
  proof (cases i)
    case 0
    then show ?thesis by simp
  next
    case (Suc j)
    with Cons.prems have "j < length rs" by simp
    from Cons.IH [OF this, of "Suc n"] Suc show ?thesis by simp
  qed
qed

lemma round_trip_shapes:
  assumes empty: "g_channels g = []"
    and run: "buildServerFromTemplate (storePlatform e) L U T (g, []) = (Inr (), (g', calls))"
  shows "map categoryShape (categoriesOfTemplate (fromGuild g'))
           = map (sentCategoryShape U) (categoriesOfTemplate T)"
proof -
  let ?E = "storedCategories U (length (g_roles g) + length (creatable (storePlatform e) (rolesOf T))) 0
              (categoriesOfTemplate T)"
  from store_buildServerFromTemplate [OF run]
  have sk: "map stripOverwrites (g_channels g') = ?E"
    by (simp add: empty)
  have "map lc_rawPosition (g_channels g') = map lc_rawPosition (map stripOverwrites (g_channels g'))"
    by (simp add: comp_def)
  with sk sorted_distinct_storedCategories [of U _ 0 "categoriesOfTemplate T"]
  have sorted: "sorted (map lc_rawPosition (g_channels g'))"
    by simp
  have "map lc_id (g_channels g') = map lc_id (map stripOverwrites (g_channels g'))"
    by (simp add: comp_def)
  with sk sorted_distinct_storedCategories [of U _ 0 "categoriesOfTemplate T"]
  have "distinct (map lc_id (g_channels g'))"
    by simp
  then have dist: "distinct (map lc_id (filter (\<lambda>ch. lc_type ch = 4) (g_channels g')))"
    by (rule distinct_map_filter)
  have "map categoryShape (categoriesOfTemplate (fromGuild g')) = liveShapes (g_channels g')"
    using sorted dist by (rule categoryShape_fromGuild)
  also have "\<dots> = liveShapes ?E"
    using liveShapes_stripOverwrites [of "g_channels g'"] sk by simp
  also have "\<dots> = map (sentCategoryShape U) (categoriesOfTemplate T)"
    by (rule liveShapes_storedCategories)
  finally show ?thesis .
qed

lemma round_trip_roles:
  assumes empty: "g_channels g = []" and base: "g_roles g = [base]"
    and pos: "lr_rawPosition base = 0"
    and run: "buildServerFromTemplate (storePlatform e) L U T (g, []) = (Inr (), (g', calls))"
  shows "rolesOf (fromGuild g') =
           map (roleTemplate g') (base # storedRoles L 0 1 (creatable (storePlatform e) (rolesOf T)))"
proof -
  let ?new = "storedRoles L 0 1 (creatable (storePlatform e) (rolesOf T))"
  from store_buildServerFromTemplate [OF run]
  have roles: "g_roles g' = base # ?new"
    by (simp add: empty base)
  have "sorted (map lr_rawPosition (base # ?new))"
    using sorted_storedRoles [of L 0 1 "creatable (storePlatform e) (rolesOf T)"] pos
    by auto
  then have "sorted (map lr_rawPosition (g_roles g'))"
    by (simp only: roles)
  then have same: "sort_key lr_rawPosition (g_roles g') = g_roles g'"
    by (rule sort_key_id_if_sorted)
  have "rolesOf (fromGuild g') = map (roleTemplate g') (sort_key lr_rawPosition (g_roles g'))"
    by (simp add: fromGuild_def Let_def rolesOf_def)
  also have "\<dots> = map (roleTemplate g') (g_roles g')"
    by (simp only: same)
  also have "\<dots> = map (roleTemplate g') (base # ?new)"
    by (simp only: roles)
  finally show ?thesis .
qed

lemma sanitizeName_clean:
  "name \<noteq> [] \<Longrightarrow> trim name = name \<Longrightarrow> length name \<le> 90 \<Longrightarrow>
   sanitizeName (Some (orDefault (Some name) d)) = name"
  by (simp add: sanitizeName_def orDefault_def)

lemma sentChannelShape_type:
  "ch_type ch = TypeStr (js ''voice'') \<or> ch_type ch = TypeStr (js ''text'') \<Longrightarrow>
   snd (sentChannelShape U ch) = ch_type ch"
  by (auto simp: sentChannelShape_def isVoiceType_def toLowerCase_def js_def lowerAscii_def
      isUpperAscii_def)

section \<open>Claims\<close>

text \<open>
  C7. For every sequence of permission names, \<open>permissionsToBitfield\<close> returns the bitwise OR
  of the bits of exactly those names that the synonym table recognizes after stripping
  parenthesis groups, trimming and case folding: a bit is set in the result if and only if it
  is set in the bit value of a recognized name of the sequence. A name that is not recognized
  contributes nothing (and there is no error branch to take). The result depends only on
  the set of names: it is the same for two sequences with the same elements, and for every
  permutation \<open>Q\<close> of \<open>P\<close> the result for \<open>Q @ Q\<close> is the result for \<open>P\<close>.

  The recognizer is pinned down as well. The table recognizes a normalized name as a flag
  exactly when the name is one of the case labels that push this flag (\<open>synonyms\<close>). The
  normal form of a name is its lower case after trimming after stripping; on a name of ASCII
  characters the lower case maps \<open>A\<close>..\<open>Z\<close> to \<open>a\<close>..\<open>z\<close> whatever the Unicode tables say.
  Stripping leaves a name without an opening or without a closing parenthesis as it is, and
  removes a first group \<open>(b)\<close> together with its parentheses. So, for every flag table, the names
  \<open>ADMINISTRATOR\<close>, \<open>  Manage Server \<close>, \<open>Timeout Members (mods)\<close> and \<open>Bogus\<close> give the OR of
  the bits of \<open>Administrator\<close> and \<open>ModerateMembers\<close>.
\<close>

theorem permissionsToBitfield_or_of_recognized:
  "(\<forall>n. bit (permissionsToBitfield U F ps) n \<longleftrightarrow>
          (\<exists>p \<in> set ps. \<exists>f. permFlag (normPerm U p) = Some f \<and> bit (F f) n))
   \<and> permissionsToBitfield U F ps =
        foldr (\<lambda>f acc. F f OR acc) (List.map_filter (\<lambda>p. permFlag (normPerm U p)) ps) 0
   \<and> (permFlag (normPerm U p) = None \<longrightarrow>
        permissionsToBitfield U F (xs @ p # ys) = permissionsToBitfield U F (xs @ ys))
   \<and> (set qs = set ps \<longrightarrow> permissionsToBitfield U F qs = permissionsToBitfield U F ps)
   \<and> (mset qs = mset ps \<longrightarrow> permissionsToBitfield U F (qs @ qs) = permissionsToBitfield U F ps)
   \<and> (permFlag norm = Some f \<longleftrightarrow> norm \<in> set (synonyms f))
   \<and> normPerm U p = toLowerCase U (trim (stripParens p))
   \<and> ((\<forall>c \<in> set p. c < 128) \<longrightarrow> normPerm U p = map lowerAscii (trim (stripParens p)))
   \<and> (40 \<notin> set s \<or> 41 \<notin> set s \<longrightarrow> stripParens s = s)
   \<and> (40 \<notin> set a \<and> 41 \<notin> set b \<and> (\<forall>c \<in> set b. \<not> isLineTerminator c) \<longrightarrow>
        stripParens (a @ [40] @ b @ [41] @ c) = a @ stripParens c)
   \<and> permissionsToBitfield U F
        [js ''ADMINISTRATOR'', js ''  Manage Server '', js ''Timeout Members (mods)'', js ''Bogus'']
       = F Administrator OR F ModerateMembers"
proof (intro conjI allI impI)
  fix n
  show "bit (permissionsToBitfield U F ps) n \<longleftrightarrow>
          (\<exists>p \<in> set ps. \<exists>f. permFlag (normPerm U p) = Some f \<and> bit (F f) n)"
    by (rule bit_permissionsToBitfield)
next
  have mapped: "mappedFlags U zs = List.map_filter (\<lambda>p. permFlag (normPerm U p)) zs" for zs
    by (induction zs) (simp_all add: map_filter_simps split: option.splits)
  have fold: "foldl (\<lambda>prev b. prev OR b) a (map F fs) = a OR foldr (\<lambda>f acc. F f OR acc) fs 0"
    for a :: nat and fs
    by (induction fs arbitrary: a) (simp_all add: or.assoc)
  show "permissionsToBitfield U F ps =
          foldr (\<lambda>f acc. F f OR acc) (List.map_filter (\<lambda>p. permFlag (normPerm U p)) ps) 0"
    by (simp add: permissionsToBitfield_def resolveFlags_def mapped fold)
next
  assume none: "permFlag (normPerm U p) = None"
  show "permissionsToBitfield U F (xs @ p # ys) = permissionsToBitfield U F (xs @ ys)"
  proof (rule bit_eqI)
    fix n
    show "bit (permissionsToBitfield U F (xs @ p # ys)) n
            = bit (permissionsToBitfield U F (xs @ ys)) n"
      using none by (auto simp: bit_permissionsToBitfield)
  qed
next
  assume "set qs = set ps"
  then show "permissionsToBitfield U F qs = permissionsToBitfield U F ps"
    by (rule permissionsToBitfield_set_cong)
next
  assume "mset qs = mset ps"
  then have "set (qs @ qs) = set ps"
    using mset_eq_setD [of qs ps] by simp
  then show "permissionsToBitfield U F (qs @ qs) = permissionsToBitfield U F ps"
    by (rule permissionsToBitfield_set_cong)
next
  show "permFlag norm = Some f \<longleftrightarrow> norm \<in> set (synonyms f)"
    by (rule permFlag_synonyms)
next
  show "normPerm U p = toLowerCase U (trim (stripParens p))"
    by (rule normPerm_def)
next
  assume "\<forall>c \<in> set p. c < 128"
  then show "normPerm U p = map lowerAscii (trim (stripParens p))"
    by (rule normPerm_ascii)
next
  assume "40 \<notin> set s \<or> 41 \<notin> set s"
  then show "stripParens s = s"
    using stripParens_none [of s] stripParens_unclosed [of s] by blast
next
  assume "40 \<notin> set a \<and> 41 \<notin> set b \<and> (\<forall>c \<in> set b. \<not> isLineTerminator c)"
  then show "stripParens (a @ [40] @ b @ [41] @ c) = a @ stripParens c"
    using stripParens_group [of a b c] by simp
next
  show "permissionsToBitfield U F
        [js ''ADMINISTRATOR'', js ''  Manage Server '', js ''Timeout Members (mods)'', js ''Bogus'']
       = F Administrator OR F ModerateMembers"
    by (simp add: normPerm_mixed permissionsToBitfield_def resolveFlags_def permFlag_def
        js_eq_iff)
qed

theorem permissionsToBitfield_or_of_recognized_witness:
  "permFlag (normPerm asciiOnly (js ''Bogus'')) = None
   \<and> mset [js ''Manage Roles (all)'', js ''Bogus'', js ''ADMINISTRATOR'']
       = mset [js ''ADMINISTRATOR'', js ''Manage Roles (all)'', js ''Bogus'']
   \<and> permissionsToBitfield asciiOnly PermissionFlagsBits
        ([js ''Manage Roles (all)'', js ''Bogus'', js ''ADMINISTRATOR'']
         @ [js ''Manage Roles (all)'', js ''Bogus'', js ''ADMINISTRATOR''])
       = permissionsToBitfield asciiOnly PermissionFlagsBits
           [js ''ADMINISTRATOR'', js ''Manage Roles (all)'', js ''Bogus'']
   \<and> permissionsToBitfield asciiOnly PermissionFlagsBits
        [js ''ADMINISTRATOR'', js ''Bogus'', js ''Manage Roles (all)'']
       = permissionsToBitfield asciiOnly PermissionFlagsBits
           [js ''ADMINISTRATOR'', js ''Manage Roles (all)'']
   \<and> permFlag (normPerm asciiOnly (js ''Manage Roles (all)'')) = Some ManageRoles
   \<and> js ''manage server'' \<in> set (synonyms Administrator)
   \<and> normPerm asciiOnly (js ''Manage Roles (all)'') = js ''manage roles''
   \<and> 40 \<notin> set (js ''Bogus'') \<and> stripParens (js ''Bogus'') = js ''Bogus''
   \<and> 40 \<notin> set (js ''Manage Roles '') \<and> 41 \<notin> set (js ''all'')
   \<and> stripParens (js ''Manage Roles (all)'') = js ''Manage Roles ''
   \<and> permissionsToBitfield asciiOnly PermissionFlagsBits
        [js ''ADMINISTRATOR'', js ''  Manage Server '', js ''Timeout Members (mods)'', js ''Bogus'']
       = 1099511627784"
proof -
  have none: "permFlag (normPerm asciiOnly (js ''Bogus'')) = None"
    by (simp add: permFlag_def normPerm_def toLowerCase_def trim_def trimStart_def trimEnd_def
        isWhiteSpace_def isLineTerminator_def js_def lowerAscii_def isUpperAscii_def)
  have perm: "mset [js ''Manage Roles (all)'', js ''Bogus'', js ''ADMINISTRATOR'']
       = mset [js ''ADMINISTRATOR'', js ''Manage Roles (all)'', js ''Bogus'']"
    by (simp add: add_mset_commute)
  have ascii: "\<forall>c \<in> set (js ''Manage Roles (all)''). c < 128"
    by (simp add: js_def)
  have strip: "stripParens (js ''Manage Roles (all)'') = js ''Manage Roles ''"
    by (simp add: js_def isLineTerminator_def)
  have norm: "map lowerAscii (trim (js ''Manage Roles '')) = js ''manage roles''"
    by (simp add: trim_def trimStart_def trimEnd_def isWhiteSpace_def isLineTerminator_def
        js_def lowerAscii_def isUpperAscii_def)
  have bogus: "40 \<notin> set (js ''Bogus'')" "40 \<notin> set (js ''Manage Roles '')"
    "41 \<notin> set (js ''all'')" "\<forall>c \<in> set (js ''all''). \<not> isLineTerminator c"
    by (simp_all add: js_def isLineTerminator_def)
  have split: "js ''Manage Roles (all)'' = js ''Manage Roles '' @ [40] @ js ''all'' @ [41] @ []"
    by (simp add: js_def)
  have bits: "PermissionFlagsBits Administrator OR PermissionFlagsBits ModerateMembers
                = 1099511627784"
    by (simp add: PermissionFlagsBits_def)
  note inst = permissionsToBitfield_or_of_recognized
      [where U = asciiOnly and F = PermissionFlagsBits
         and ps = "[js ''ADMINISTRATOR'', js ''Manage Roles (all)'', js ''Bogus'']"
         and p = "js ''Bogus''" and xs = "[js ''ADMINISTRATOR'']"
         and ys = "[js ''Manage Roles (all)'']"
         and qs = "[js ''Manage Roles (all)'', js ''Bogus'', js ''ADMINISTRATOR'']"
         and norm = "js ''manage server''" and f = Administrator
         and s = "js ''Bogus''" and a = "js ''Manage Roles ''" and b = "js ''all''" and c = "[]"]
  note inst2 = permissionsToBitfield_or_of_recognized
      [where U = asciiOnly and p = "js ''Manage Roles (all)''"
         and norm = "js ''manage roles''" and f = ManageRoles]
  from inst2 ascii
  have "normPerm asciiOnly (js ''Manage Roles (all)'')
          = map lowerAscii (trim (stripParens (js ''Manage Roles (all)'')))"
    by blast
  with strip norm have np: "normPerm asciiOnly (js ''Manage Roles (all)'') = js ''manage roles''"
    by simp
  from inst2
  have "permFlag (js ''manage roles'') = Some ManageRoles
          \<longleftrightarrow> js ''manage roles'' \<in> set (synonyms ManageRoles)"
    by blast
  with np have mr: "permFlag (normPerm asciiOnly (js ''Manage Roles (all)'')) = Some ManageRoles"
    by simp
  show ?thesis
    using none perm inst ascii strip norm bogus bits mr np split by simp
qed

text \<open>
  C2. \<open>ensureTemplateSafe\<close> throws the "Template is not valid." error if and only if
  \<open>categories\<close> is missing or is not an array (which includes a template that is itself
  missing). Otherwise it throws one of the two "Too many ..." errors if and only if the
  channels of all categories together are more than 500 or the roles are more than 200, and
  returns normally otherwise. So it rejects every template with 501 channels, however they are
  spread over the categories, and accepts one with exactly 500 channels (and at most 200
  roles).
\<close>

theorem ensureTemplateSafe_errors:
  "((\<exists>e. ensureTemplateSafe t = Inl e \<and> isTemplateInvalid e) \<longleftrightarrow> categoriesOf t = None)
   \<and> (\<forall>tpl cats. t = Some tpl \<and> categories tpl = Some cats \<longrightarrow>
        ((\<exists>e. ensureTemplateSafe t = Inl e \<and> isLimitExceeded e) \<longleftrightarrow>
            (totalChannels cats > 500 \<or> roleCountOf tpl > 200))
        \<and> (ensureTemplateSafe t = Inr () \<longleftrightarrow>
            (totalChannels cats \<le> 500 \<and> roleCountOf tpl \<le> 200))
        \<and> (totalChannels cats = 501 \<longrightarrow> ensureTemplateSafe t = Inl (TooManyChannels 501))
        \<and> (totalChannels cats = 500 \<and> roleCountOf tpl \<le> 200 \<longrightarrow>
              ensureTemplateSafe t = Inr ()))"
  by (auto simp: ensureTemplateSafe_def categoriesOf_def roleCountOf_def countChannels_eq
      MAX_CHANNELS_def MAX_ROLES_def Let_def split: option.splits)

theorem ensureTemplateSafe_errors_witness:
  "ensureTemplateSafe
     (Some \<lparr>categories =
              Some [\<lparr>cat_name = Some (js ''A''), cat_channels = Some (replicate 250 exampleChannel)\<rparr>,
                    \<lparr>cat_name = Some (js ''B''), cat_channels = None\<rparr>,
                    \<lparr>cat_name = Some (js ''C''), cat_channels = Some (replicate 251 exampleChannel)\<rparr>],
            roles = None, summary = []\<rparr>)
     = Inl (TooManyChannels 501)
   \<and> ensureTemplateSafe
     (Some \<lparr>categories =
              Some [\<lparr>cat_name = Some (js ''A''), cat_channels = Some (replicate 250 exampleChannel)\<rparr>,
                    \<lparr>cat_name = Some (js ''C''), cat_channels = Some (replicate 250 exampleChannel)\<rparr>],
            roles = Some [], summary = []\<rparr>)
     = Inr ()
   \<and> (\<exists>e. ensureTemplateSafe (Some \<lparr>categories = None, roles = None, summary = []\<rparr>) = Inl e
          \<and> isTemplateInvalid e)"
proof -
  let ?c501 = "[\<lparr>cat_name = Some (js ''A''), cat_channels = Some (replicate 250 exampleChannel)\<rparr>,
                \<lparr>cat_name = Some (js ''B''), cat_channels = None\<rparr>,
                \<lparr>cat_name = Some (js ''C''), cat_channels = Some (replicate 251 exampleChannel)\<rparr>]"
  let ?c500 = "[\<lparr>cat_name = Some (js ''A''), cat_channels = Some (replicate 250 exampleChannel)\<rparr>,
                \<lparr>cat_name = Some (js ''C''), cat_channels = Some (replicate 250 exampleChannel)\<rparr>]"
  have a: "totalChannels ?c501 = 501"
    by (simp add: totalChannels_def)
  have b: "totalChannels ?c500 = 500"
    by (simp add: totalChannels_def)
  have c: "roleCountOf \<lparr>categories = Some ?c500, roles = Some [], summary = []\<rparr> \<le> 200"
    by (simp add: roleCountOf_def)
  have d: "categoriesOf (Some \<lparr>categories = None, roles = None, summary = []\<rparr>) = None"
    by (simp add: categoriesOf_def)
  show ?thesis
    using a b c d
      ensureTemplateSafe_errors [of "Some \<lparr>categories = Some ?c501, roles = None, summary = []\<rparr>"]
      ensureTemplateSafe_errors [of "Some \<lparr>categories = Some ?c500, roles = Some [], summary = []\<rparr>"]
      ensureTemplateSafe_errors [of "Some \<lparr>categories = None, roles = None, summary = []\<rparr>"]
    by simp
qed

lemmas run_defs =
  buildServerFromTemplate_def ensureRoles_def guild_roles_create_def rolePayload_def
  buildChannel_def createChannelSafe_def guild_channels_create_def channelPayload_def
  categoryPayload_def permissionOverwrites_create_def topicInvalid_def hasTopic_def
  storePlatform_def storeRole_def storeChannel_def storeOverwrite_def rejectFirst_def
  sanitizeName_def orDefault_def isVoiceType_def toLowerCase_def
  trim_def trimStart_def trimEnd_def isWhiteSpace_def isLineTerminator_def js_def
  lowerAscii_def isUpperAscii_def normalizePermValue_def isDigit_def digitsValue_def
  emptyTarget_def freshId_def decimal.simps GuildText_def GuildVoice_def GuildCategory_def
  rulesChannel_def rulesPayload_def ghostOverwrite_def everyoneOverwrite_def topicError_def
  nameError_def modRole_def baseRole_def asciiOnly_def digitsOnly_def

lemma sanitizeName_orDefault:
  "sanitizeName (Some (orDefault name d)) =
     (let trimmed = trim (orDefault name d) in if trimmed = [] then js ''channel'' else take 90 trimmed)"
  by (simp add: sanitizeName_def orDefault_def split: option.splits)

lemma sanitizeName_bounds: "sanitizeName name \<noteq> [] \<and> length (sanitizeName name) \<le> 90"
  by (simp add: sanitizeName_def Let_def js_def)

lemma categoryPayload_bounds:
  "p_name (categoryPayload cat) \<noteq> [] \<and> length (p_name (categoryPayload cat)) \<le> 90
   \<and> p_topic (categoryPayload cat) = None"
  using sanitizeName_bounds by (simp add: categoryPayload_def)

lemma channelPayload_bounds:
  "p_name (channelPayload U parent ch) \<noteq> [] \<and> length (p_name (channelPayload U parent ch)) \<le> 90
   \<and> (\<forall>tp. p_topic (channelPayload U parent ch) = Some tp \<longrightarrow> tp \<noteq> [] \<and> length tp \<le> 1024)"
  using sanitizeName_bounds
  by (auto simp: channelPayload_def Let_def split: option.splits if_splits)



text \<open>
  C4 (as amended). \<open>createChannelSafe\<close> issues the creation once. If the service accepts it,
  that is the result. If the service rejects it with an error that carries a topic entry
  or the code 50035, and the payload has a non-empty topic, the engine issues the same
  creation exactly once more with the topic removed, and the outcome of that second call is
  the outcome: its channel, with no error for the caller, or its error. In every other case
  the first error goes to the caller and there is no second call.
\<close>

theorem createChannelSafe_fallback:
  "(guild_channels_create P payload w = (Inr cid, w1) \<longrightarrow>
      createChannelSafe P payload w = (Inr cid, w1))
   \<and> (guild_channels_create P payload w = (Inl err, w1)
        \<and> (err_topic err \<or> err_code err = Some 50035) \<and> hasTopic payload \<longrightarrow>
      createChannelSafe P payload w =
        (case guild_channels_create P (payload\<lparr>p_topic := None\<rparr>) w1 of
           (Inr cid', w2) \<Rightarrow> (Inr cid', w2)
         | (Inl err', w2) \<Rightarrow> (Inl (Rejected err'), w2))
      \<and> snd (snd (createChannelSafe P payload w)) =
          snd w @ [ChannelsCreate payload, ChannelsCreate (payload\<lparr>p_topic := None\<rparr>)])
   \<and> (guild_channels_create P payload w = (Inl err, w1)
        \<and> \<not> ((err_topic err \<or> err_code err = Some 50035) \<and> hasTopic payload) \<longrightarrow>
      createChannelSafe P payload w = (Inl (Rejected err), w1)
      \<and> snd (snd (createChannelSafe P payload w)) = snd w @ [ChannelsCreate payload])"
proof (intro conjI impI)
  assume "guild_channels_create P payload w = (Inr cid, w1)"
  then show "createChannelSafe P payload w = (Inr cid, w1)"
    by (simp add: createChannelSafe_def)
next
  assume a: "guild_channels_create P payload w = (Inl err, w1)
        \<and> (err_topic err \<or> err_code err = Some 50035) \<and> hasTopic payload"
  then show retry: "createChannelSafe P payload w =
        (case guild_channels_create P (payload\<lparr>p_topic := None\<rparr>) w1 of
           (Inr cid', w2) \<Rightarrow> (Inr cid', w2)
         | (Inl err', w2) \<Rightarrow> (Inl (Rejected err'), w2))"
    by (simp add: createChannelSafe_def topicInvalid_def)
  obtain r2 w2 where second: "guild_channels_create P (payload\<lparr>p_topic := None\<rparr>) w1 = (r2, w2)"
    by (cases "guild_channels_create P (payload\<lparr>p_topic := None\<rparr>) w1")
  from a have first: "snd w1 = snd w @ [ChannelsCreate payload]"
    using guild_channels_create_log [of P payload w "Inl err" w1] by simp
  from retry second have "snd (createChannelSafe P payload w) = w2"
    by (cases r2) simp_all
  with guild_channels_create_log [OF second] first
  show "snd (snd (createChannelSafe P payload w)) =
          snd w @ [ChannelsCreate payload, ChannelsCreate (payload\<lparr>p_topic := None\<rparr>)]"
    by simp
next
  assume a: "guild_channels_create P payload w = (Inl err, w1)
        \<and> \<not> ((err_topic err \<or> err_code err = Some 50035) \<and> hasTopic payload)"
  then show rethrow: "createChannelSafe P payload w = (Inl (Rejected err), w1)"
    by (auto simp: createChannelSafe_def topicInvalid_def)
  from a have "snd w1 = snd w @ [ChannelsCreate payload]"
    using guild_channels_create_log [of P payload w "Inl err" w1] by simp
  with rethrow show "snd (snd (createChannelSafe P payload w)) = snd w @ [ChannelsCreate payload]"
    by simp
qed

theorem createChannelSafe_fallback_witness:
  "guild_channels_create (rejectFirst topicError) rulesPayload (0, [])
     = (Inl topicError, (1, [ChannelsCreate rulesPayload]))
   \<and> (err_topic topicError \<or> err_code topicError = Some 50035) \<and> hasTopic rulesPayload
   \<and> createChannelSafe (rejectFirst topicError) rulesPayload (0, [])
     = (Inr (js ''1''),
        (2, [ChannelsCreate rulesPayload, ChannelsCreate (rulesPayload\<lparr>p_topic := None\<rparr>)]))"
proof -
  have first: "guild_channels_create (rejectFirst topicError) rulesPayload (0, [])
     = (Inl topicError, (1, [ChannelsCreate rulesPayload]))"
    by (simp add: guild_channels_create_def rejectFirst_def)
  have cond: "(err_topic topicError \<or> err_code topicError = Some 50035) \<and> hasTopic rulesPayload"
    by (simp add: topicError_def hasTopic_def rulesPayload_def js_def)
  have second: "guild_channels_create (rejectFirst topicError) (rulesPayload\<lparr>p_topic := None\<rparr>)
        (1, [ChannelsCreate rulesPayload])
     = (Inr (js ''1''),
        (2, [ChannelsCreate rulesPayload, ChannelsCreate (rulesPayload\<lparr>p_topic := None\<rparr>)]))"
    by (simp add: guild_channels_create_def rejectFirst_def decimal.simps js_def)
  from createChannelSafe_fallback
         [of "rejectFirst topicError" rulesPayload "(0, [])" _ "(1, [ChannelsCreate rulesPayload])"
             topicError]
       first cond second
  show ?thesis by simp
qed

theorem createChannelSafe_fallback_counterexample:
  "\<not> err_topic nameError
   \<and> createChannelSafe (rejectFirst nameError) rulesPayload (0, [])
     = (Inr (js ''1''),
        (2, [ChannelsCreate rulesPayload, ChannelsCreate (rulesPayload\<lparr>p_topic := None\<rparr>)]))"
  by (simp add: run_defs)





text \<open>
  C10 (as amended). Every call of a run that creates a category or a channel carries the
  payload that the engine builds from a category or a channel of the template; its name is
  not empty and has at most 90 code units, and its topic, when it has one, is not empty and
  has at most 1024 code units. The name of a category is its template name, or "Category"
  when that is missing or empty, trimmed and cut to its first 90 code units, or "channel"
  when trimming leaves nothing; the name of a channel is built the same way with the default
  "channel". The topic of a text channel is the first 1024 code units of the template topic
  (none when that is missing or empty); a voice channel is sent without a topic.
\<close>

theorem creation_payloads_sanitized:
  "(\<forall>p. ChannelsCreate p \<in> set (snd (snd (buildServerFromTemplate P L U t (s, [])))) \<longrightarrow>
       (\<exists>cat \<in> set (categoriesOfTemplate t). p = categoryPayload cat
          \<or> (\<exists>ch \<in> set (channelsOf cat). \<exists>parent.
                p = channelPayload U parent ch \<or> p = (channelPayload U parent ch)\<lparr>p_topic := None\<rparr>))
       \<and> p_name p \<noteq> [] \<and> length (p_name p) \<le> 90
       \<and> (\<forall>tp. p_topic p = Some tp \<longrightarrow> tp \<noteq> [] \<and> length tp \<le> 1024))
   \<and> p_name (categoryPayload cat) =
        (let trimmed = trim (orDefault (cat_name cat) (js ''Category''))
         in if trimmed = [] then js ''channel'' else take 90 trimmed)
   \<and> p_name (channelPayload U parent ch) =
        (let trimmed = trim (orDefault (ch_name ch) (js ''channel''))
         in if trimmed = [] then js ''channel'' else take 90 trimmed)
   \<and> p_topic (channelPayload U parent ch) =
        (if isVoiceType U (ch_type ch) then None
         else case ch_topic ch of
                None \<Rightarrow> None
              | Some tp \<Rightarrow> if tp = [] then None else Some (take 1024 tp))"
proof -
  have calls: "(\<exists>cat \<in> set (categoriesOfTemplate t). p = categoryPayload cat
          \<or> (\<exists>ch \<in> set (channelsOf cat). \<exists>parent.
                p = channelPayload U parent ch \<or> p = (channelPayload U parent ch)\<lparr>p_topic := None\<rparr>))
       \<and> p_name p \<noteq> [] \<and> length (p_name p) \<le> 90
       \<and> (\<forall>tp. p_topic p = Some tp \<longrightarrow> tp \<noteq> [] \<and> length tp \<le> 1024)"
    if p: "ChannelsCreate p \<in> set (snd (snd (buildServerFromTemplate P L U t (s, []))))" for p
  proof -
    obtain r x where run: "buildServerFromTemplate P L U t (s, []) = (r, x)"
      by (cases "buildServerFromTemplate P L U t (s, [])")
    from buildServerFromTemplate_log [OF run] obtain k rest where
      log: "snd x = map (roleCall L) (take k (creatable P (rolesOf t))) @ rest"
      and rest: "\<forall>c \<in> set rest. structureCall U (categoriesOfTemplate t) c"
      by auto
    from p run log have "ChannelsCreate p \<in> set rest"
      by (auto simp: roleCall_def)
    with rest have "structureCall U (categoriesOfTemplate t) (ChannelsCreate p)"
      by blast
    then have origin: "\<exists>cat \<in> set (categoriesOfTemplate t). p = categoryPayload cat
          \<or> (\<exists>ch \<in> set (channelsOf cat). \<exists>parent.
                p = channelPayload U parent ch \<or> p = (channelPayload U parent ch)\<lparr>p_topic := None\<rparr>)"
      by (rule structureCall_payload)
    then consider cat where "p = categoryPayload cat"
      | parent ch where "p = channelPayload U parent ch"
      | parent ch where "p = (channelPayload U parent ch)\<lparr>p_topic := None\<rparr>"
      by blast
    then have "p_name p \<noteq> [] \<and> length (p_name p) \<le> 90
         \<and> (\<forall>tp. p_topic p = Some tp \<longrightarrow> tp \<noteq> [] \<and> length tp \<le> 1024)"
    proof cases
      case 1
      with categoryPayload_bounds [of cat] show ?thesis by simp
    next
      case 2
      with channelPayload_bounds [of U parent ch] show ?thesis by simp
    next
      case 3
      with channelPayload_bounds [of U parent ch] show ?thesis by simp
    qed
    with origin show ?thesis by blast
  qed
  have catName: "p_name (categoryPayload cat) =
        (let trimmed = trim (orDefault (cat_name cat) (js ''Category''))
         in if trimmed = [] then js ''channel'' else take 90 trimmed)"
    by (simp add: categoryPayload_def sanitizeName_orDefault)
  have chName: "p_name (channelPayload U parent ch) =
        (let trimmed = trim (orDefault (ch_name ch) (js ''channel''))
         in if trimmed = [] then js ''channel'' else take 90 trimmed)"
    by (simp add: channelPayload_def sanitizeName_orDefault Let_def)
  have chTopic: "p_topic (channelPayload U parent ch) =
        (if isVoiceType U (ch_type ch) then None
         else case ch_topic ch of
                None \<Rightarrow> None
              | Some tp \<Rightarrow> if tp = [] then None else Some (take 1024 tp))"
    by (simp add: channelPayload_def Let_def)
  from calls show ?thesis
    unfolding catName chName chTopic by blast
qed

theorem creation_payloads_sanitized_witness:
  "snd (snd (buildServerFromTemplate (storePlatform (js ''0'')) digitsOnly asciiOnly
        \<lparr>categories = Some [\<lparr>cat_name = Some longName, cat_channels = None\<rparr>], roles = None,
         summary = []\<rparr> (emptyTarget, [])))
     = [ChannelsCreate \<lparr>p_name = replicate 90 120, p_type = 4, p_parent = None, p_topic = None,
                         p_nsfw = None, p_rateLimitPerUser = None\<rparr>]
   \<and> length (replicate 90 (120::nat)) \<le> 90"
proof -
  let ?t = "\<lparr>categories = Some [\<lparr>cat_name = Some longName, cat_channels = None\<rparr>], roles = None,
         summary = []\<rparr>"
  let ?p = "\<lparr>p_name = replicate 90 120, p_type = 4, p_parent = None, p_topic = None,
                         p_nsfw = None, p_rateLimitPerUser = None\<rparr>"
  have trimmed: "trim longName = replicate 100 120"
    by (simp add: longName_def trim_def trimStart_def trimEnd_def isWhiteSpace_def
        isLineTerminator_def js_def dropWhile_append3)
  have nonempty: "longName \<noteq> []"
    by (simp add: longName_def js_def)
  have san: "sanitizeName (Some longName) = replicate 90 120"
    by (simp add: sanitizeName_def orDefault_def nonempty trimmed)
  have run: "snd (snd (buildServerFromTemplate (storePlatform (js ''0'')) digitsOnly asciiOnly ?t
               (emptyTarget, []))) = [ChannelsCreate ?p]"
    by (simp add: buildServerFromTemplate_def ensureRoles_def guild_channels_create_def
        categoryPayload_def orDefault_def nonempty san
        storePlatform_def storeChannel_def GuildCategory_def)
  then have "ChannelsCreate ?p \<in> set (snd (snd (buildServerFromTemplate (storePlatform (js ''0''))
               digitsOnly asciiOnly ?t (emptyTarget, []))))"
    by simp
  with creation_payloads_sanitized
         [of "storePlatform (js ''0'')" digitsOnly asciiOnly ?t emptyTarget]
  have "length (p_name ?p) \<le> 90"
    by blast
  with run show ?thesis by simp
qed

theorem creation_payloads_sanitized_counterexample:
  "trim [] = []
   \<and> snd (snd (buildServerFromTemplate (storePlatform (js ''0'')) digitsOnly asciiOnly
        \<lparr>categories = Some [\<lparr>cat_name = Some [], cat_channels = None\<rparr>], roles = None,
         summary = []\<rparr> (emptyTarget, [])))
     = [ChannelsCreate \<lparr>p_name = js ''Category'', p_type = 4, p_parent = None, p_topic = None,
                         p_nsfw = None, p_rateLimitPerUser = None\<rparr>]
   \<and> js ''Category'' \<noteq> js ''channel''"
  by (simp add: run_defs)


text \<open>
  C6. Parsing the line "INFORMATION" followed by the line
  "  #rules | Type: text | Permissions: [View Channel, Read Message History]" yields exactly
  one category, named "INFORMATION", with exactly one channel: a text channel named "rules"
  whose only overwrite targets the base role (the key "everyone"), allows the bits of
  ViewChannel and ReadMessageHistory and denies nothing. For every input, every channel that
  the parser returns has either no overwrites or exactly one overwrite, for the base role:
  never one for a named role.
\<close>

theorem parse_information_example:
  "parseTextStructure U F R informationInput =
     \<lparr>categories =
        Some [\<lparr>cat_name = Some (js ''INFORMATION''),
               cat_channels =
                 Some [\<lparr>ch_name = Some (js ''rules''), ch_type = TypeStr (js ''text''),
                        ch_topic = Some (js ''Server rules.''), ch_nsfw = False, ch_slowmode = 0,
                        ch_overwrites =
                          Some [\<lparr>roleRefId = js ''everyone'',
                                 allow = Some (decimal (F ViewChannel OR F ReadMessageHistory)),
                                 deny = Some (js ''0'')\<rparr>]\<rparr>]\<rparr>],
      roles = Some [],
      summary = js ''1 categories / 1 channels''\<rparr>
   \<and> (\<forall>raw cats cat ch ows.
         categories (parseTextStructure U F R raw) = Some cats \<and> cat \<in> set cats
         \<and> ch \<in> set (channelsOf cat) \<and> ch_overwrites ch = Some ows \<longrightarrow>
         (\<exists>bits. ows = [\<lparr>roleRefId = js ''everyone'', allow = Some bits, deny = Some (js ''0'')\<rparr>]))"
proof (intro conjI allI impI)
  show "parseTextStructure U F R informationInput =
     \<lparr>categories =
        Some [\<lparr>cat_name = Some (js ''INFORMATION''),
               cat_channels =
                 Some [\<lparr>ch_name = Some (js ''rules''), ch_type = TypeStr (js ''text''),
                        ch_topic = Some (js ''Server rules.''), ch_nsfw = False, ch_slowmode = 0,
                        ch_overwrites =
                          Some [\<lparr>roleRefId = js ''everyone'',
                                 allow = Some (decimal (F ViewChannel OR F ReadMessageHistory)),
                                 deny = Some (js ''0'')\<rparr>]\<rparr>]\<rparr>],
      roles = Some [],
      summary = js ''1 categories / 1 channels''\<rparr>"
    by (rule parse_informationInput)
next
  fix raw cats cat ch ows
  assume a: "categories (parseTextStructure U F R raw) = Some cats \<and> cat \<in> set cats
         \<and> ch \<in> set (channelsOf cat) \<and> ch_overwrites ch = Some ows"
  then have "wellParsed cats"
    by (blast intro: wellParsed_parseTextStructure)
  with a have "baseOnly ch"
    by (auto simp: wellParsed_def)
  with a show "\<exists>bits. ows = [\<lparr>roleRefId = js ''everyone'', allow = Some bits, deny = Some (js ''0'')\<rparr>]"
    by (simp add: baseOnly_def)
qed

theorem parse_information_example_witness:
  "(\<exists>cats cat ch ows.
      categories (parseTextStructure asciiOnly PermissionFlagsBits (\<lambda>n. js ''role-0'')
                    informationInput) = Some cats
      \<and> cat \<in> set cats \<and> ch \<in> set (channelsOf cat) \<and> ch_overwrites ch = Some ows
      \<and> ows = [\<lparr>roleRefId = js ''everyone'', allow = Some (js ''66560''), deny = Some (js ''0'')\<rparr>])"
proof -
  let ?ow = "\<lparr>roleRefId = js ''everyone'',
              allow = Some (decimal (PermissionFlagsBits ViewChannel OR PermissionFlagsBits ReadMessageHistory)),
              deny = Some (js ''0'')\<rparr>"
  let ?ch = "\<lparr>ch_name = Some (js ''rules''), ch_type = TypeStr (js ''text''),
              ch_topic = Some (js ''Server rules.''), ch_nsfw = False, ch_slowmode = 0,
              ch_overwrites = Some [?ow]\<rparr>"
  let ?cat = "\<lparr>cat_name = Some (js ''INFORMATION''), cat_channels = Some [?ch]\<rparr>"
  note ex = parse_information_example [of asciiOnly PermissionFlagsBits "\<lambda>n. js ''role-0''"]
  from ex have cats: "categories (parseTextStructure asciiOnly PermissionFlagsBits (\<lambda>n. js ''role-0'')
                    informationInput) = Some [?cat]"
    by simp
  have bits: "decimal (PermissionFlagsBits ViewChannel OR PermissionFlagsBits ReadMessageHistory)
                = js ''66560''"
    by (simp add: PermissionFlagsBits_def decimal.simps js_def)
  have "?cat \<in> set [?cat]" "?ch \<in> set (channelsOf ?cat)" "ch_overwrites ?ch = Some [?ow]"
    by (simp_all add: channelsOf_def)
  with cats bits show ?thesis
    by metis
qed

text \<open>
  C8. \<open>parseTextStructure\<close> returns a template for every input: there is no input on which
  it throws. The one operation of the parser that can throw is the constructor of the bit
  field, on a flag name that the table of the library does not define; in the parser with
  this exception written out, whenever the table defines every flag, every input gives a
  template (never the exception), the template of the parser above. (The exception is
  there: with a table that does not define \<open>ViewChannel\<close> the first example input ends in
  it.) The template always has its two arrays, every category has its array of channels, and
  the summary is "\<open>n\<close> categories / \<open>m\<close> channels" for the number \<open>n\<close> of categories and the
  number \<open>m\<close> of channels of the template that is returned. These numbers are read off the
  input: \<open>n\<close> is the number of lines that open a category, plus one for the category
  "General" when the first line that is not a role line is a channel line; \<open>m\<close> is the number
  of channel lines; and the number of roles is the number of role lines from which a role is
  built. An input without a non-blank line gives the template with no category and no role.
\<close>

theorem parse_total_summary:
  "((\<forall>f. T f \<noteq> None) \<longrightarrow>
      parseTextStructure_exn U T R raw = Inr (parseTextStructure U (\<lambda>f. the (T f)) R raw))
   \<and> (T ViewChannel = None \<longrightarrow>
        parseTextStructure_exn U T R informationInput = Inl (FlagInvalid ViewChannel))
   \<and> (\<exists>cats rs.
        categories (parseTextStructure U F R raw) = Some cats
        \<and> roles (parseTextStructure U F R raw) = Some rs
        \<and> (\<forall>cat \<in> set cats. \<exists>chs. cat_channels cat = Some chs)
        \<and> summary (parseTextStructure U F R raw) =
            decimal (length cats) @ js '' categories / '' @ decimal (totalChannels cats)
            @ js '' channels''
        \<and> length cats = countKind CategoryLine (inputLines raw)
                         + (if opensGeneral (inputLines raw) then 1 else 0)
        \<and> totalChannels cats = countKind ChannelLine (inputLines raw)
        \<and> length rs = length (filter (buildsRole U F) (inputLines raw)))
   \<and> (inputLines raw = [] \<longrightarrow>
        parseTextStructure U F R raw =
          \<lparr>categories = Some [], roles = Some [], summary = js ''0 categories / 0 channels''\<rparr>)"
proof (intro conjI impI)
  assume "\<forall>f. T f \<noteq> None"
  then show "parseTextStructure_exn U T R raw = Inr (parseTextStructure U (\<lambda>f. the (T f)) R raw)"
    by (rule parseTextStructure_exn_returns)
next
  assume "T ViewChannel = None"
  then show "parseTextStructure_exn U T R informationInput = Inl (FlagInvalid ViewChannel)"
    by (rule parse_exn_informationInput)
next
  let ?st = "parseLines U F R (inputLines raw)
               \<lparr>ps_categories = [], ps_roles = [], currentCategory = None\<rparr>"
  have c: "categories (parseTextStructure U F R raw) = Some (ps_categories ?st)"
    and r: "roles (parseTextStructure U F R raw) = Some (ps_roles ?st)"
    and s: "summary (parseTextStructure U F R raw) =
          decimal (length (ps_categories ?st)) @ js '' categories / ''
          @ decimal (totalChannels (ps_categories ?st)) @ js '' channels''"
    by (simp_all add: parseTextStructure_def Let_def sumChannels_eq)
  from wellParsed_parseTextStructure [OF c]
  have w: "\<forall>cat \<in> set (ps_categories ?st). \<exists>chs. cat_channels cat = Some chs"
    by (auto simp: wellParsed_def)
  note n = parseTextStructure_counts [OF c r]
  from c r s w n
  have "categories (parseTextStructure U F R raw) = Some (ps_categories ?st)
        \<and> roles (parseTextStructure U F R raw) = Some (ps_roles ?st)
        \<and> (\<forall>cat \<in> set (ps_categories ?st). \<exists>chs. cat_channels cat = Some chs)
        \<and> summary (parseTextStructure U F R raw) =
            decimal (length (ps_categories ?st)) @ js '' categories / ''
            @ decimal (totalChannels (ps_categories ?st)) @ js '' channels''
        \<and> length (ps_categories ?st) = countKind CategoryLine (inputLines raw)
                         + (if opensGeneral (inputLines raw) then 1 else 0)
        \<and> totalChannels (ps_categories ?st) = countKind ChannelLine (inputLines raw)
        \<and> length (ps_roles ?st) = length (filter (buildsRole U F) (inputLines raw))"
    by (intro conjI) simp_all
  then show "\<exists>cats rs.
        categories (parseTextStructure U F R raw) = Some cats
        \<and> roles (parseTextStructure U F R raw) = Some rs
        \<and> (\<forall>cat \<in> set cats. \<exists>chs. cat_channels cat = Some chs)
        \<and> summary (parseTextStructure U F R raw) =
            decimal (length cats) @ js '' categories / '' @ decimal (totalChannels cats)
            @ js '' channels''
        \<and> length cats = countKind CategoryLine (inputLines raw)
                         + (if opensGeneral (inputLines raw) then 1 else 0)
        \<and> totalChannels cats = countKind ChannelLine (inputLines raw)
        \<and> length rs = length (filter (buildsRole U F) (inputLines raw))"
    by (intro exI)
next
  assume "inputLines raw = []"
  then show "parseTextStructure U F R raw =
          \<lparr>categories = Some [], roles = Some [], summary = js ''0 categories / 0 channels''\<rparr>"
    by (simp add: parseTextStructure_def Let_def decimal.simps js_def)
qed

theorem parse_total_summary_witness:
  "inputLines (js ''   '' @ [13, 10, 10] @ js '' '') = []
   \<and> parseTextStructure asciiOnly PermissionFlagsBits (\<lambda>n. js ''role-0'')
        (js ''   '' @ [13, 10, 10] @ js '' '')
      = \<lparr>categories = Some [], roles = Some [], summary = js ''0 categories / 0 channels''\<rparr>
   \<and> parseTextStructure_exn asciiOnly (\<lambda>f. Some (PermissionFlagsBits f)) (\<lambda>n. js ''role-0'')
        (js ''   '' @ [13, 10, 10] @ js '' '')
      = Inr \<lparr>categories = Some [], roles = Some [], summary = js ''0 categories / 0 channels''\<rparr>
   \<and> summary (parseTextStructure asciiOnly PermissionFlagsBits (\<lambda>n. js ''role-0'') informationInput)
      = js ''1 categories / 1 channels''
   \<and> parseTextStructure_exn asciiOnly (\<lambda>f. Some (PermissionFlagsBits f)) (\<lambda>n. js ''role-0'')
        informationInput
      = Inr (parseTextStructure asciiOnly PermissionFlagsBits (\<lambda>n. js ''role-0'') informationInput)
   \<and> parseTextStructure_exn asciiOnly
        (\<lambda>f. if f = ViewChannel then None else Some (PermissionFlagsBits f)) (\<lambda>n. js ''role-0'')
        informationInput
      = Inl (FlagInvalid ViewChannel)
   \<and> map lineKind (inputLines informationInput) = [CategoryLine, ChannelLine]
   \<and> countKind CategoryLine (inputLines informationInput) = 1
   \<and> countKind ChannelLine (inputLines informationInput) = 1
   \<and> opensGeneral (inputLines informationInput) = False
   \<and> (\<exists>cats rs.
         categories (parseTextStructure asciiOnly PermissionFlagsBits (\<lambda>n. js ''role-0'')
                       informationInput) = Some cats
         \<and> roles (parseTextStructure asciiOnly PermissionFlagsBits (\<lambda>n. js ''role-0'')
                    informationInput) = Some rs
         \<and> length cats = 1 \<and> totalChannels cats = 1 \<and> length rs = 0)"
proof -
  let ?T = "\<lambda>f. Some (PermissionFlagsBits f)"
  let ?M = "\<lambda>f. if f = ViewChannel then None else Some (PermissionFlagsBits f)"
  have blank: "inputLines (js ''   '' @ [13, 10, 10] @ js '' '') = []"
    by (simp add: inputLines_def normalizeLine_def trimEnd_def isWhiteSpace_def
        isLineTerminator_def js_def)
  have total: "\<forall>f. ?T f \<noteq> None"
    by simp
  have missing: "?M ViewChannel = None"
    by simp
  have eta: "(\<lambda>f. the (?T f)) = PermissionFlagsBits"
    by (intro ext) simp
  note inst1 = parse_total_summary
      [where U = asciiOnly and F = PermissionFlagsBits and R = "\<lambda>n. js ''role-0''"
         and raw = "js ''   '' @ [13, 10, 10] @ js '' ''" and T = ?T]
  note inst2 = parse_total_summary
      [where U = asciiOnly and F = PermissionFlagsBits and R = "\<lambda>n. js ''role-0''"
         and raw = informationInput and T = ?T]
  note inst3 = parse_total_summary
      [where U = asciiOnly and F = PermissionFlagsBits and R = "\<lambda>n. js ''role-0''"
         and raw = informationInput and T = ?M]
  from inst1 blank
  have a: "parseTextStructure asciiOnly PermissionFlagsBits (\<lambda>n. js ''role-0'')
        (js ''   '' @ [13, 10, 10] @ js '' '')
      = \<lparr>categories = Some [], roles = Some [], summary = js ''0 categories / 0 channels''\<rparr>"
    by blast
  from inst1 total
  have "parseTextStructure_exn asciiOnly ?T (\<lambda>n. js ''role-0'')
          (js ''   '' @ [13, 10, 10] @ js '' '')
        = Inr (parseTextStructure asciiOnly (\<lambda>f. the (?T f)) (\<lambda>n. js ''role-0'')
                 (js ''   '' @ [13, 10, 10] @ js '' ''))"
    by blast
  with a have b: "parseTextStructure_exn asciiOnly ?T (\<lambda>n. js ''role-0'')
          (js ''   '' @ [13, 10, 10] @ js '' '')
      = Inr \<lparr>categories = Some [], roles = Some [], summary = js ''0 categories / 0 channels''\<rparr>"
    by (simp only: eta)
  have c: "summary (parseTextStructure asciiOnly PermissionFlagsBits (\<lambda>n. js ''role-0'') informationInput)
      = js ''1 categories / 1 channels''"
    by (simp add: parse_informationInput)
  from inst2 total
  have "parseTextStructure_exn asciiOnly ?T (\<lambda>n. js ''role-0'') informationInput
        = Inr (parseTextStructure asciiOnly (\<lambda>f. the (?T f)) (\<lambda>n. js ''role-0'') informationInput)"
    by blast
  then have d: "parseTextStructure_exn asciiOnly ?T (\<lambda>n. js ''role-0'') informationInput
        = Inr (parseTextStructure asciiOnly PermissionFlagsBits (\<lambda>n. js ''role-0'') informationInput)"
    by (simp only: eta)
  from inst3 missing
  have e: "parseTextStructure_exn asciiOnly ?M (\<lambda>n. js ''role-0'') informationInput
      = Inl (FlagInvalid ViewChannel)"
    by blast
  have kinds: "map lineKind (inputLines informationInput) = [CategoryLine, ChannelLine]"
    by (simp add: inputLines_informationInput lineKind_information lineKind_rulesLine)
  have counts: "countKind CategoryLine (inputLines informationInput) = 1"
    "countKind ChannelLine (inputLines informationInput) = 1"
    "opensGeneral (inputLines informationInput) = False"
    by (simp_all add: countKind_def opensGeneral_def inputLines_informationInput
        lineKind_information lineKind_rulesLine)
  have noroles: "filter (buildsRole asciiOnly PermissionFlagsBits) (inputLines informationInput) = []"
    by (simp add: buildsRole_def inputLines_informationInput lineKind_information
        lineKind_rulesLine)
  from inst2 obtain cats rs where
    cr: "categories (parseTextStructure asciiOnly PermissionFlagsBits (\<lambda>n. js ''role-0'')
                       informationInput) = Some cats"
      "roles (parseTextStructure asciiOnly PermissionFlagsBits (\<lambda>n. js ''role-0'')
                informationInput) = Some rs"
    and n: "length cats = countKind CategoryLine (inputLines informationInput)
                         + (if opensGeneral (inputLines informationInput) then 1 else 0)"
      "totalChannels cats = countKind ChannelLine (inputLines informationInput)"
      "length rs = length (filter (buildsRole asciiOnly PermissionFlagsBits)
                             (inputLines informationInput))"
    by (elim conjE exE) (rule that)
  from n counts noroles have "length cats = 1 \<and> totalChannels cats = 1 \<and> length rs = 0"
    by simp
  with cr have f: "\<exists>cats rs.
         categories (parseTextStructure asciiOnly PermissionFlagsBits (\<lambda>n. js ''role-0'')
                       informationInput) = Some cats
         \<and> roles (parseTextStructure asciiOnly PermissionFlagsBits (\<lambda>n. js ''role-0'')
                    informationInput) = Some rs
         \<and> length cats = 1 \<and> totalChannels cats = 1 \<and> length rs = 0"
    by blast
  from blank a b c d e kinds counts f show ?thesis
    by (intro conjI)
qed

text \<open>
  C5. Parsing the line "Owner | Color: #ff0000 | Permissions: [Administrator, Manage Roles]"
  yields no category and exactly one role, with the color 0xff0000 and the bits of
  Administrator and ManageRoles. The name of that role is "Owner | |", not "Owner":
  \<open>buildRoleFromLine\<close> takes the color token and the bracketed list out of the line and
  collapses white space, and the two pipes of the line stay in the name.
\<close>

theorem parse_owner_example:
  "parseTextStructure U F R ownerInput =
     \<lparr>categories = Some [],
      roles = Some [\<lparr>refId = R 0, role_name = js ''Owner | |'', role_color = 16711680,
                     role_hoist = False, role_mentionable = True,
                     role_permissions = Some (decimal (F Administrator OR F ManageRoles)),
                     isEveryone = False\<rparr>],
      summary = js ''0 categories / 0 channels''\<rparr>
   \<and> js ''Owner | |'' \<noteq> js ''Owner''
   \<and> (16711680 :: nat) = 255 * 65536"
  by (simp add: parse_ownerInput) (simp add: js_def)


text \<open>
  C1 (as amended). Take the service that stores what it is sent, numbers what it creates
  and keeps the order of creation, whatever the identifier of the base role, and a target
  that holds no channel and no role but its base role, at raw position 0. If provisioning a
  template \<open>T\<close> into it succeeds, then extracting a template from the result gives: the
  categories of \<open>T\<close> in order, each with the channels of \<open>T\<close> in order, where every name is the
  name that the engine sends (the name of \<open>T\<close>, or its default, after \<open>sanitizeName\<close>) and
  every channel type is "voice" or "text" as \<open>isVoiceType\<close> reads the type of \<open>T\<close>; and the
  roles are the base role of the target followed by one role for each role template of \<open>T\<close>
  that is not bound to the base role, in order, each with the name and the color of its
  template and with the decimal numeral of the permission value that the engine reads from
  its template. Role by role: a role whose template has a decimal numeral without leading
  zeros as its permission string comes back with this very string, whatever the permission
  strings of the other roles. A name that is not empty, is trimmed and has at most 90 code
  units is sent unchanged, and a type that is the string "voice" or "text" is returned
  unchanged. Nothing is said of the \<open>refId\<close>s.
\<close>

theorem round_trip_on_store:
  "(g_channels g = [] \<and> g_roles g = [base] \<and> lr_rawPosition base = 0
    \<and> buildServerFromTemplate (storePlatform e) L U T (g, []) = (Inr (), (g', calls))
      \<longrightarrow>
      map categoryShape (categoriesOfTemplate (fromGuild g'))
        = map (sentCategoryShape U) (categoriesOfTemplate T)
      \<and> map (\<lambda>r. (role_name r, role_color r, role_permissions r)) (rolesOf (fromGuild g'))
        = (lr_name base, lr_color base, Some (bigintToString (lr_permissions base)))
          # map (\<lambda>r. (role_name r, role_color r,
                       Some (bigintToString (permOf L (role_permissions r)))))
              (creatable (storePlatform e) (rolesOf T))
      \<and> (\<forall>i < length (creatable (storePlatform e) (rolesOf T)).
            (\<exists>k. role_permissions (creatable (storePlatform e) (rolesOf T) ! i) = Some (decimal k))
            \<longrightarrow> role_permissions (rolesOf (fromGuild g') ! Suc i)
                  = role_permissions (creatable (storePlatform e) (rolesOf T) ! i)))
   \<and> bigintToString (permOf L (Some (decimal k))) = decimal k
   \<and> (name \<noteq> [] \<and> trim name = name \<and> length name \<le> 90
        \<longrightarrow> sanitizeName (Some (orDefault (Some name) d)) = name)
   \<and> (ch_type ch = TypeStr (js ''voice'') \<or> ch_type ch = TypeStr (js ''text'')
        \<longrightarrow> snd (sentChannelShape U ch) = ch_type ch)"
proof (intro conjI impI)
  assume hyp: "g_channels g = [] \<and> g_roles g = [base] \<and> lr_rawPosition base = 0
    \<and> buildServerFromTemplate (storePlatform e) L U T (g, []) = (Inr (), (g', calls))"
  then have empty: "g_channels g = []" and base: "g_roles g = [base]"
    and pos: "lr_rawPosition base = 0"
    and run: "buildServerFromTemplate (storePlatform e) L U T (g, []) = (Inr (), (g', calls))"
    by simp_all
  let ?cr = "creatable (storePlatform e) (rolesOf T)"
  show "map categoryShape (categoriesOfTemplate (fromGuild g'))
        = map (sentCategoryShape U) (categoriesOfTemplate T)"
    using empty run by (rule round_trip_shapes)
  note roles = round_trip_roles [OF empty base pos run]
  show "map (\<lambda>r. (role_name r, role_color r, role_permissions r)) (rolesOf (fromGuild g'))
        = (lr_name base, lr_color base, Some (bigintToString (lr_permissions base)))
          # map (\<lambda>r. (role_name r, role_color r,
                       Some (bigintToString (permOf L (role_permissions r))))) ?cr"
    unfolding roles
    using storedRoles_triples [of L 0 1 ?cr]
    by (simp add: roleTemplate_def comp_def)
  show "\<forall>i < length ?cr.
            (\<exists>k. role_permissions (?cr ! i) = Some (decimal k))
            \<longrightarrow> role_permissions (rolesOf (fromGuild g') ! Suc i) = role_permissions (?cr ! i)"
  proof (intro allI impI)
    fix i
    assume i: "i < length ?cr" and "\<exists>k. role_permissions (?cr ! i) = Some (decimal k)"
    then obtain k where k: "role_permissions (?cr ! i) = Some (decimal k)"
      by blast
    from i have "rolesOf (fromGuild g') ! Suc i = roleTemplate g' (storedRoles L 0 1 ?cr ! i)"
      unfolding roles by simp
    also have "storedRoles L 0 1 ?cr ! i = storedRole L 0 (1 + i) (?cr ! i)"
      using i by (rule storedRoles_nth)
    finally have "role_permissions (rolesOf (fromGuild g') ! Suc i)
                    = Some (bigintToString (permOf L (role_permissions (?cr ! i))))"
      by (simp add: roleTemplate_def storedRole_def)
    with k show "role_permissions (rolesOf (fromGuild g') ! Suc i) = role_permissions (?cr ! i)"
      by (simp add: bigintToString_permOf_decimal)
  qed
next
  show "bigintToString (permOf L (Some (decimal k))) = decimal k"
    by (rule bigintToString_permOf_decimal)
next
  assume "name \<noteq> [] \<and> trim name = name \<and> length name \<le> 90"
  then show "sanitizeName (Some (orDefault (Some name) d)) = name"
    by (simp add: sanitizeName_clean)
next
  assume "ch_type ch = TypeStr (js ''voice'') \<or> ch_type ch = TypeStr (js ''text'')"
  then show "snd (sentChannelShape U ch) = ch_type ch"
    by (rule sentChannelShape_type)
qed

theorem round_trip_on_store_witness:
  "fst (buildServerFromTemplate (storePlatform (js ''0'')) digitsOnly asciiOnly mixedTemplate
          (emptyTarget, [])) = Inr ()
   \<and> map categoryShape
        (categoriesOfTemplate
           (fromGuild (fst (snd (buildServerFromTemplate (storePlatform (js ''0'')) digitsOnly
                                   asciiOnly mixedTemplate (emptyTarget, []))))))
     = [(Some (js ''INFORMATION''), [(Some (js ''rules''), TypeStr (js ''text''))])]
   \<and> map (\<lambda>r. (role_name r, role_color r, role_permissions r))
        (rolesOf
           (fromGuild (fst (snd (buildServerFromTemplate (storePlatform (js ''0'')) digitsOnly
                                   asciiOnly mixedTemplate (emptyTarget, []))))))
     = [(js ''@everyone'', 0, Some (js ''0'')), (js ''Moderator'', 16749645, Some (js ''6'')),
        (js ''Moderator'', 16749645, Some (js ''7''))]
   \<and> role_permissions
        (rolesOf
           (fromGuild (fst (snd (buildServerFromTemplate (storePlatform (js ''0'')) digitsOnly
                                   asciiOnly mixedTemplate (emptyTarget, []))))) ! Suc 0)
     = Some (js ''6'')
   \<and> bigintToString (permOf digitsOnly (Some (decimal 6))) = js ''6''
   \<and> sanitizeName (Some (orDefault (Some (js ''rules'')) (js ''channel''))) = js ''rules''
   \<and> snd (sentChannelShape asciiOnly (rulesChannel [everyoneOverwrite])) = TypeStr (js ''text'')"
proof -
  let ?X = "buildServerFromTemplate (storePlatform (js ''0'')) digitsOnly asciiOnly mixedTemplate
              (emptyTarget, [])"
  let ?base = "\<lparr>lr_id = js ''0'', lr_name = js ''@everyone'', lr_color = 0, lr_hoist = False,
                  lr_mentionable = False, lr_permissions = 0, lr_rawPosition = 0\<rparr>"
  have ok: "fst ?X = Inr ()"
    by (simp add: run_defs mixedTemplate_def)
  then have run: "?X = (Inr (), (fst (snd ?X), snd (snd ?X)))"
    by (metis prod.collapse)
  have target: "g_channels emptyTarget = []" "g_roles emptyTarget = [?base]"
    "lr_rawPosition ?base = 0"
    by (simp_all add: emptyTarget_def)
  have cr: "creatable (storePlatform (js ''0'')) (rolesOf mixedTemplate)
              = [modRole (js ''r1''), (modRole (js ''r2''))\<lparr>role_permissions := Some (js ''007'')\<rparr>]"
    by (simp add: creatable_def bindsToBase_def rolesOf_def mixedTemplate_def baseRole_def
        modRole_def storePlatform_def js_def)
  have six: "js ''6'' = decimal 6"
    by (simp add: decimal.simps js_def)
  have perm6: "bigintToString (permOf digitsOnly (Some (js ''6''))) = js ''6''"
    by (simp add: run_defs permOf_def bigintToString_def)
  have perm7: "bigintToString (permOf digitsOnly (Some (js ''007''))) = js ''7''"
    by (simp add: run_defs permOf_def bigintToString_def)
  have zero: "bigintToString 0 = js ''0''"
    by (simp add: bigintToString_def decimal.simps js_def)
  have shapes: "map (sentCategoryShape asciiOnly) (categoriesOfTemplate mixedTemplate)
      = [(Some (js ''INFORMATION''), [(Some (js ''rules''), TypeStr (js ''text''))])]"
    by (simp add: sentCategoryShape_def sentChannelShape_def categoriesOfTemplate_def
        mixedTemplate_def channelsOf_def run_defs)
  have clean: "js ''rules'' \<noteq> [] \<and> trim (js ''rules'') = js ''rules'' \<and> length (js ''rules'') \<le> 90"
    by (simp add: run_defs)
  have ty: "ch_type (rulesChannel [everyoneOverwrite]) = TypeStr (js ''text'')"
    by (simp add: rulesChannel_def)
  note inst = round_trip_on_store
      [where g = emptyTarget and base = ?base and e = "js ''0''" and L = digitsOnly
         and U = asciiOnly and T = mixedTemplate and g' = "fst (snd ?X)"
         and calls = "snd (snd ?X)" and k = 6 and name = "js ''rules''" and d = "js ''channel''"
         and ch = "rulesChannel [everyoneOverwrite]"]
  from inst run target
  have a: "map categoryShape (categoriesOfTemplate (fromGuild (fst (snd ?X))))
        = map (sentCategoryShape asciiOnly) (categoriesOfTemplate mixedTemplate)"
    and b: "map (\<lambda>r. (role_name r, role_color r, role_permissions r))
              (rolesOf (fromGuild (fst (snd ?X))))
        = (lr_name ?base, lr_color ?base, Some (bigintToString (lr_permissions ?base)))
          # map (\<lambda>r. (role_name r, role_color r,
                       Some (bigintToString (permOf digitsOnly (role_permissions r)))))
              (creatable (storePlatform (js ''0'')) (rolesOf mixedTemplate))"
    and c: "\<forall>i < length (creatable (storePlatform (js ''0'')) (rolesOf mixedTemplate)).
            (\<exists>k. role_permissions (creatable (storePlatform (js ''0'')) (rolesOf mixedTemplate) ! i)
                    = Some (decimal k))
            \<longrightarrow> role_permissions (rolesOf (fromGuild (fst (snd ?X))) ! Suc i)
                  = role_permissions (creatable (storePlatform (js ''0'')) (rolesOf mixedTemplate) ! i)"
    by blast+
  from inst have d: "bigintToString (permOf digitsOnly (Some (decimal 6))) = decimal 6"
    by blast
  from inst clean
  have e: "sanitizeName (Some (orDefault (Some (js ''rules'')) (js ''channel''))) = js ''rules''"
    by blast
  from inst ty
  have f: "snd (sentChannelShape asciiOnly (rulesChannel [everyoneOverwrite])) = TypeStr (js ''text'')"
    by simp
  from b cr perm6 perm7 zero
  have b': "map (\<lambda>r. (role_name r, role_color r, role_permissions r))
              (rolesOf (fromGuild (fst (snd ?X))))
     = [(js ''@everyone'', 0, Some (js ''0'')), (js ''Moderator'', 16749645, Some (js ''6'')),
        (js ''Moderator'', 16749645, Some (js ''7''))]"
    by (simp add: modRole_def)
  have r1: "role_permissions (modRole (js ''r1'')) = Some (decimal 6)"
    by (simp add: modRole_def six)
  have len: "0 < length (creatable (storePlatform (js ''0'')) (rolesOf mixedTemplate))"
    by (simp add: cr)
  have "\<exists>k. role_permissions (creatable (storePlatform (js ''0'')) (rolesOf mixedTemplate) ! 0)
              = Some (decimal k)"
    by (intro exI [of _ 6]) (simp add: cr r1)
  with c len
  have "role_permissions (rolesOf (fromGuild (fst (snd ?X))) ! Suc 0)
          = role_permissions (creatable (storePlatform (js ''0'')) (rolesOf mixedTemplate) ! 0)"
    by blast
  also have "\<dots> = Some (js ''6'')"
    by (simp add: cr r1 six)
  finally have c': "role_permissions (rolesOf (fromGuild (fst (snd ?X))) ! Suc 0) = Some (js ''6'')" .
  from ok a shapes b' c' d six e f show ?thesis
    by simp
qed

theorem round_trip_on_store_counterexample:
  "fst (buildServerFromTemplate (storePlatform (js ''0'')) digitsOnly asciiOnly
          longCategoryTemplate (emptyTarget, [])) = Inr ()
   \<and> map cat_name (categoriesOfTemplate longCategoryTemplate) = [Some (replicate 95 120)]
   \<and> map cat_name
        (categoriesOfTemplate
           (fromGuild (fst (snd (buildServerFromTemplate (storePlatform (js ''0'')) digitsOnly
                                   asciiOnly longCategoryTemplate (emptyTarget, []))))))
     = [Some (replicate 90 120)]
   \<and> replicate 90 (120 :: nat) \<noteq> replicate 95 120"
proof -
  let ?X = "buildServerFromTemplate (storePlatform (js ''0'')) digitsOnly asciiOnly
              longCategoryTemplate (emptyTarget, [])"
  have san: "sanitizeName (Some (replicate 95 120)) = replicate 90 120"
    by (simp add: sanitizeName_def orDefault_def trim_def trimStart_def trimEnd_def
        isWhiteSpace_def isLineTerminator_def)
  have ok: "fst ?X = Inr ()"
    by (simp add: buildServerFromTemplate_def ensureRoles_def guild_channels_create_def
        longCategoryTemplate_def storePlatform_def storeChannel_def)
  then have run: "?X = (Inr (), (fst (snd ?X), snd (snd ?X)))"
    by (metis prod.collapse)
  have empty: "g_channels emptyTarget = []"
    by (simp add: emptyTarget_def)
  have names: "map cat_name cs = map fst (map categoryShape cs)" for cs
    by (simp add: categoryShape_def comp_def)
  have "map cat_name (categoriesOfTemplate (fromGuild (fst (snd ?X)))) = [Some (replicate 90 120)]"
    unfolding names round_trip_shapes [OF empty run]
    by (simp add: sentCategoryShape_def categoriesOfTemplate_def longCategoryTemplate_def
        orDefault_def san)
  moreover have "map cat_name (categoriesOfTemplate longCategoryTemplate) = [Some (replicate 95 120)]"
    by (simp add: categoriesOfTemplate_def longCategoryTemplate_def)
  ultimately show ?thesis
    using ok by simp
qed


end
